theory Spec2Isabelle
  imports Complex_Main "HOL-Library.Multiset"
begin

section \<open>JavaScript values\<close>

text \<open>
  The provider works on the values the Firebase snapshot holds and the refine framework
  passes in: undefined, null, booleans, numbers, strings, plain objects and arrays.
  An object or an array carries the address it lives at, so that reference identity
  (\<open>===\<close> on objects, \<open>Set\<close> membership) can be told from structural equality.
  An object is its own properties in enumeration order; an array is its slots, a hole
  being \<open>None\<close>. Members inherited from the built-in prototypes are not part of the
  model: a property key is taken not to name one of them.

  A number is a double: \<open>NaN\<close>, the two infinities, or a finite value, written as the
  rational it denotes. The result of an arithmetic operation is the exact result
  rounded to the nearest double (\<open>round_double\<close> below). Negative zero is not told
  from zero, which none of the operations used here (\<open><\<close>, \<open>==\<close>, truthiness,
  \<open>slice\<close>, \<open>+ 1\<close>) can do either.
  Strings are byte strings, one \<open>char\<close> per UTF-16 code unit of an ASCII string.
\<close>

datatype jsnum = NaN | NegInf | Fin rat | PosInf

datatype jsval =
    JUndefined
  | JNull
  | JBool bool
  | JNum jsnum
  | JStr string
  | JObj nat "(string \<times> jsval) list"
  | JArr nat "jsval option list"

text \<open>What a \<open>throw\<close> carries and what a promise rejects with.\<close>

datatype exn =
    TypeError
  | StoreError string
  | Reason jsval

text \<open>
  The two conversions between strings and numbers, which the language defines by a
  grammar over decimal, hexadecimal and exponent literals, are parameters of the model.
\<close>

record js_env =
  string_to_number :: "string \<Rightarrow> jsnum"
  number_to_string :: "jsnum \<Rightarrow> string"

definition try_bind :: "exn + 'a \<Rightarrow> ('a \<Rightarrow> exn + 'b) \<Rightarrow> exn + 'b" where
  "try_bind r f = (case r of Inl e \<Rightarrow> Inl e | Inr v \<Rightarrow> f v)"

subsection \<open>Truthiness, identity, conversions\<close>

fun truthy :: "jsval \<Rightarrow> bool" where
  "truthy JUndefined = False"
| "truthy JNull = False"
| "truthy (JBool b) = b"
| "truthy (JNum n) = (n \<noteq> NaN \<and> n \<noteq> Fin 0)"
| "truthy (JStr s) = (s \<noteq> [])"
| "truthy (JObj a fs) = True"
| "truthy (JArr a xs) = True"

fun is_object :: "jsval \<Rightarrow> bool" where
  "is_object (JObj a fs) = True"
| "is_object (JArr a xs) = True"
| "is_object v = False"

fun ref_of :: "jsval \<Rightarrow> nat" where
  "ref_of (JObj a fs) = a"
| "ref_of (JArr a xs) = a"
| "ref_of v = 0"

text \<open>\<open>===\<close>: same type and same value; objects by address; \<open>NaN\<close> differs from itself.\<close>

fun strict_eq :: "jsval \<Rightarrow> jsval \<Rightarrow> bool" where
  "strict_eq JUndefined y = (y = JUndefined)"
| "strict_eq JNull y = (y = JNull)"
| "strict_eq (JBool b) y = (y = JBool b)"
| "strict_eq (JNum n) y = (n \<noteq> NaN \<and> y = JNum n)"
| "strict_eq (JStr s) y = (y = JStr s)"
| "strict_eq (JObj a fs) y = (is_object y \<and> ref_of y = a)"
| "strict_eq (JArr a xs) y = (is_object y \<and> ref_of y = a)"

text \<open>SameValueZero, the equality of \<open>Set\<close> and of \<open>Array.prototype.includes\<close>.\<close>

fun same_value_zero :: "jsval \<Rightarrow> jsval \<Rightarrow> bool" where
  "same_value_zero (JNum n) y = (y = JNum n)"
| "same_value_zero x y = strict_eq x y"

text \<open>ToString. A plain object prints as \<open>[object Object]\<close>, an array as its elements
  joined by commas, with nothing for a hole, undefined or null.\<close>

fun join_with :: "string \<Rightarrow> string list \<Rightarrow> string" where
  "join_with sep [] = []"
| "join_with sep [s] = s"
| "join_with sep (s # t # ts) = s @ sep @ join_with sep (t # ts)"

fun to_string :: "js_env \<Rightarrow> jsval \<Rightarrow> string" where
  "to_string env JUndefined = ''undefined''"
| "to_string env JNull = ''null''"
| "to_string env (JBool b) = (if b then ''true'' else ''false'')"
| "to_string env (JNum n) = number_to_string env n"
| "to_string env (JStr s) = s"
| "to_string env (JObj a fs) = ''[object Object]''"
| "to_string env (JArr a xs) =
     join_with '',''
       (map (\<lambda>slot. case slot of
                None \<Rightarrow> []
              | Some v \<Rightarrow> (if v = JUndefined \<or> v = JNull then [] else to_string env v)) xs)"

text \<open>ToPrimitive: an object or an array has no primitive \<open>valueOf\<close>, so \<open>toString\<close>
  decides, whatever the hint.\<close>

definition to_primitive :: "js_env \<Rightarrow> jsval \<Rightarrow> jsval" where
  "to_primitive env v = (if is_object v then JStr (to_string env v) else v)"

text \<open>ToNumber, the conversion \<open>Number(v)\<close> applies.\<close>

definition to_number :: "js_env \<Rightarrow> jsval \<Rightarrow> jsnum" where
  "to_number env v =
     (case to_primitive env v of
        JUndefined \<Rightarrow> NaN
      | JNull \<Rightarrow> Fin 0
      | JBool b \<Rightarrow> (if b then Fin 1 else Fin 0)
      | JNum n \<Rightarrow> n
      | JStr s \<Rightarrow> string_to_number env s
      | _ \<Rightarrow> NaN)"

subsection \<open>Numbers\<close>

text \<open>\<open>x < y\<close> on numbers: \<open>None\<close> is the undefined answer a \<open>NaN\<close> operand gives.
  Comparing two doubles involves no rounding.\<close>

fun num_less :: "jsnum \<Rightarrow> jsnum \<Rightarrow> bool option" where
  "num_less NaN y = None"
| "num_less x NaN = None"
| "num_less NegInf y = Some (y \<noteq> NegInf)"
| "num_less x NegInf = Some False"
| "num_less PosInf y = Some False"
| "num_less x PosInf = Some True"
| "num_less (Fin a) (Fin b) = Some (a < b)"

text \<open>The exact negation, sum, difference and product, before any rounding.\<close>

fun num_neg :: "jsnum \<Rightarrow> jsnum" where
  "num_neg NaN = NaN"
| "num_neg NegInf = PosInf"
| "num_neg PosInf = NegInf"
| "num_neg (Fin a) = Fin (- a)"

fun num_add :: "jsnum \<Rightarrow> jsnum \<Rightarrow> jsnum" where
  "num_add NaN y = NaN"
| "num_add x NaN = NaN"
| "num_add (Fin a) (Fin b) = Fin (a + b)"
| "num_add (Fin a) y = y"
| "num_add x (Fin b) = x"
| "num_add x y = (if x = y then x else NaN)"

definition num_sub :: "jsnum \<Rightarrow> jsnum \<Rightarrow> jsnum" where
  "num_sub x y = num_add x (num_neg y)"

fun num_sign :: "jsnum \<Rightarrow> int" where
  "num_sign NaN = 0"
| "num_sign NegInf = - 1"
| "num_sign PosInf = 1"
| "num_sign (Fin a) = (if a < 0 then - 1 else if a = 0 then 0 else 1)"

fun num_mul :: "jsnum \<Rightarrow> jsnum \<Rightarrow> jsnum" where
  "num_mul NaN y = NaN"
| "num_mul x NaN = NaN"
| "num_mul (Fin a) (Fin b) = Fin (a * b)"
| "num_mul x y =
     (if num_sign x * num_sign y = 0 then NaN
      else if num_sign x * num_sign y < 0 then NegInf else PosInf)"

subsection \<open>Rounding to a double\<close>

text \<open>
  A double is a binary64 number: a significand of 53 bits and an exponent from
  \<open>-1022\<close> to \<open>1023\<close>. \<open>exponent x\<close> is the \<open>e\<close> with \<open>2^e \<le> |x| < 2^(e+1)\<close>, found by
  halving or doubling. The doubles around \<open>x\<close> are the multiples of the quantum
  \<open>2^(e - 52)\<close> (of \<open>2^-1074\<close> in the subnormal range); \<open>x\<close> rounds to the nearest of
  them, to the one with the even significand when two are equally near, and to
  infinity when that is \<open>2^1024\<close> or beyond.
\<close>

function exponent_up :: "rat \<Rightarrow> nat" where
  "exponent_up x = (if x < 2 then 0 else Suc (exponent_up (x / 2)))"
  by pat_completeness auto
termination
proof (relation "measure (\<lambda>x. nat \<lfloor>x\<rfloor>)")
  show "wf (measure (\<lambda>x. nat \<lfloor>x\<rfloor>))" by simp
next
  fix x :: rat assume "\<not> x < 2"
  then have "x / 2 \<le> x - 1" by simp
  then have "\<lfloor>x / 2\<rfloor> \<le> \<lfloor>x - 1\<rfloor>" by (rule floor_mono)
  moreover have "0 < \<lfloor>x\<rfloor>" using \<open>\<not> x < 2\<close> by (simp add: floor_less_iff not_less)
  ultimately show "(x / 2, x) \<in> measure (\<lambda>x. nat \<lfloor>x\<rfloor>)"
    by simp
qed

function exponent_down :: "rat \<Rightarrow> nat" where
  "exponent_down x = (if x \<le> 0 \<or> 1 \<le> x then 0 else Suc (exponent_down (2 * x)))"
  by pat_completeness auto
termination
proof (relation "measure (\<lambda>x. nat \<lfloor>1 / x\<rfloor>)")
  show "wf (measure (\<lambda>x. nat \<lfloor>1 / x\<rfloor>))" by simp
next
  fix x :: rat assume "\<not> (x \<le> 0 \<or> 1 \<le> x)"
  then have x: "0 < x" "x < 1" by auto
  then have one: "1 < 1 / x" by simp
  define y where "y = 1 / x"
  have y: "1 < y" using one by (simp add: y_def)
  have "of_int \<lfloor>y / 2\<rfloor> + 1 \<le> y"
  proof (cases "y < 2")
    case True
    then have "\<lfloor>y / 2\<rfloor> = 0" using y by (simp add: floor_eq_iff)
    then show ?thesis using y by simp
  next
    case False
    have "of_int \<lfloor>y / 2\<rfloor> \<le> y / 2" by (rule of_int_floor_le)
    then show ?thesis using False by simp
  qed
  then have "\<lfloor>y / 2\<rfloor> + 1 \<le> \<lfloor>y\<rfloor>"
    by (simp add: le_floor_iff)
  moreover have "1 / (2 * x) = y / 2" by (simp add: y_def)
  ultimately have "\<lfloor>1 / (2 * x)\<rfloor> + 1 \<le> \<lfloor>1 / x\<rfloor>"
    by (simp only: y_def)
  moreover have "0 < \<lfloor>1 / x\<rfloor>"
    using one by (simp add: floor_less_iff not_less less_imp_le)
  ultimately have "nat \<lfloor>1 / (2 * x)\<rfloor> < nat \<lfloor>1 / x\<rfloor>"
    by linarith
  then show "(2 * x, x) \<in> measure (\<lambda>x. nat \<lfloor>1 / x\<rfloor>)"
    by (simp only: in_measure)
qed

declare exponent_up.simps [simp del]
declare exponent_down.simps [simp del]

definition exponent :: "rat \<Rightarrow> int" where
  "exponent x =
     (if 1 \<le> \<bar>x\<bar> then int (exponent_up \<bar>x\<bar>) else - int (exponent_down \<bar>x\<bar>))"

definition pow2 :: "int \<Rightarrow> rat" where
  "pow2 e = (if 0 \<le> e then 2 ^ nat e else 1 / 2 ^ nat (- e))"

definition round_half_even :: "rat \<Rightarrow> int" where
  "round_half_even y =
     (let n = \<lfloor>y\<rfloor>; d = y - of_int n
      in if d < 1 / 2 then n else if 1 / 2 < d then n + 1 else if even n then n else n + 1)"

definition round_double :: "rat \<Rightarrow> jsnum" where
  "round_double x =
     (if x = 0 then Fin 0
      else
        (let q = pow2 (max (exponent x) (- 1022) - 52);
             r = of_int (round_half_even (x / q)) * q
         in if 2 ^ 1024 \<le> \<bar>r\<bar> then (if x < 0 then NegInf else PosInf) else Fin r))"

fun round_num :: "jsnum \<Rightarrow> jsnum" where
  "round_num (Fin r) = round_double r"
| "round_num n = n"

text \<open>\<open>x + y\<close>, \<open>x - y\<close> and \<open>x * y\<close> as the engine computes them.\<close>

definition js_add :: "jsnum \<Rightarrow> jsnum \<Rightarrow> jsnum" where
  "js_add x y = round_num (num_add x y)"

definition js_sub :: "jsnum \<Rightarrow> jsnum \<Rightarrow> jsnum" where
  "js_sub x y = round_num (num_sub x y)"

definition js_mul :: "jsnum \<Rightarrow> jsnum \<Rightarrow> jsnum" where
  "js_mul x y = round_num (num_mul x y)"

subsection \<open>Comparison operators\<close>

fun str_less :: "string \<Rightarrow> string \<Rightarrow> bool" where
  "str_less [] [] = False"
| "str_less [] (d # t) = True"
| "str_less (c # s) [] = False"
| "str_less (c # s) (d # t) =
     (if (of_char c :: nat) < of_char d then True
      else if (of_char d :: nat) < of_char c then False
      else str_less s t)"

text \<open>IsLessThan: two strings compare by code units, anything else as numbers.\<close>

definition is_less_than :: "js_env \<Rightarrow> jsval \<Rightarrow> jsval \<Rightarrow> bool option" where
  "is_less_than env x y =
     (case (to_primitive env x, to_primitive env y) of
        (JStr s, JStr t) \<Rightarrow> Some (str_less s t)
      | (px, py) \<Rightarrow> num_less (to_number env px) (to_number env py))"

definition js_lt :: "js_env \<Rightarrow> jsval \<Rightarrow> jsval \<Rightarrow> bool" where
  "js_lt env x y = (is_less_than env x y = Some True)"

definition js_gt :: "js_env \<Rightarrow> jsval \<Rightarrow> jsval \<Rightarrow> bool" where
  "js_gt env x y = (is_less_than env y x = Some True)"

definition js_le :: "js_env \<Rightarrow> jsval \<Rightarrow> jsval \<Rightarrow> bool" where
  "js_le env x y = (is_less_than env y x = Some False)"

definition js_ge :: "js_env \<Rightarrow> jsval \<Rightarrow> jsval \<Rightarrow> bool" where
  "js_ge env x y = (is_less_than env x y = Some False)"

text \<open>\<open>==\<close> (IsLooselyEqual), case by case in the order of the language definition.\<close>

fun prim_loose_eq :: "js_env \<Rightarrow> jsval \<Rightarrow> jsval \<Rightarrow> bool" where
  "prim_loose_eq env (JNum n) (JStr s) = strict_eq (JNum n) (JNum (string_to_number env s))"
| "prim_loose_eq env (JStr s) (JNum n) = strict_eq (JNum (string_to_number env s)) (JNum n)"
| "prim_loose_eq env x y = strict_eq x y"

fun is_bool :: "jsval \<Rightarrow> bool" where
  "is_bool (JBool b) = True"
| "is_bool v = False"

fun unbool :: "jsval \<Rightarrow> jsval" where
  "unbool (JBool b) = JNum (if b then Fin 1 else Fin 0)"
| "unbool v = v"

definition loose_eq :: "js_env \<Rightarrow> jsval \<Rightarrow> jsval \<Rightarrow> bool" where
  "loose_eq env x y =
     (if (x = JUndefined \<or> x = JNull) \<and> (y = JUndefined \<or> y = JNull) then True
      else if x = JUndefined \<or> x = JNull \<or> y = JUndefined \<or> y = JNull then False
      else if is_object x \<and> is_object y then strict_eq x y
      else if is_bool x \<and> is_bool y then strict_eq x y
      else
        (let x1 = unbool x; y1 = unbool y in
         if is_object x1 then prim_loose_eq env (to_primitive env x1) y1
         else if is_object y1 then prim_loose_eq env x1 (to_primitive env y1)
         else prim_loose_eq env x1 y1))"

subsection \<open>Property access\<close>

text \<open>A canonical array index: decimal digits with no leading zero.\<close>

definition digit_of :: "char \<Rightarrow> nat option" where
  "digit_of c =
     (let n = (of_char c :: nat) in if 48 \<le> n \<and> n \<le> 57 then Some (n - 48) else None)"

fun digits_value :: "nat \<Rightarrow> string \<Rightarrow> nat option" where
  "digits_value acc [] = Some acc"
| "digits_value acc (c # cs) =
     (case digit_of c of None \<Rightarrow> None | Some d \<Rightarrow> digits_value (10 * acc + d) cs)"

definition array_index :: "string \<Rightarrow> nat option" where
  "array_index k =
     (case k of
        [] \<Rightarrow> None
      | c # cs \<Rightarrow> (if c = CHR ''0'' \<and> cs \<noteq> [] then None else digits_value 0 k))"

text \<open>\<open>value[f]\<close>: reading a property of undefined or null throws a TypeError; a key
  that names no property gives undefined.\<close>

fun get_prop :: "jsval \<Rightarrow> string \<Rightarrow> exn + jsval" where
  "get_prop JUndefined k = Inl TypeError"
| "get_prop JNull k = Inl TypeError"
| "get_prop (JBool b) k = Inr JUndefined"
| "get_prop (JNum n) k = Inr JUndefined"
| "get_prop (JStr s) k =
     Inr (if k = ''length'' then JNum (Fin (of_nat (length s)))
          else (case array_index k of
                  None \<Rightarrow> JUndefined
                | Some i \<Rightarrow> (if i < length s then JStr [s ! i] else JUndefined)))"
| "get_prop (JObj a fs) k = Inr (case map_of fs k of None \<Rightarrow> JUndefined | Some v \<Rightarrow> v)"
| "get_prop (JArr a xs) k =
     Inr (if k = ''length'' then JNum (Fin (of_nat (length xs)))
          else (case array_index k of
                  None \<Rightarrow> JUndefined
                | Some i \<Rightarrow>
                    (if i < length xs
                     then (case xs ! i of None \<Rightarrow> JUndefined | Some v \<Rightarrow> v)
                     else JUndefined)))"

text \<open>\<open>s.split(".")\<close>: the pieces between the separators; never empty.\<close>

fun split_on :: "char \<Rightarrow> string \<Rightarrow> string list" where
  "split_on d [] = [[]]"
| "split_on d (c # cs) =
     (if c = d then [] # split_on d cs
      else (let r = split_on d cs in (c # hd r) # tl r))"

text \<open>The loop \<open>for (let f of filter.field.split(".")) value = value[f]\<close>.\<close>

fun walk_path :: "jsval \<Rightarrow> string list \<Rightarrow> exn + jsval" where
  "walk_path v [] = Inr v"
| "walk_path v (f # fs) =
     (case get_prop v f of Inl e \<Rightarrow> Inl e | Inr w \<Rightarrow> walk_path w fs)"

definition resolve_field :: "jsval \<Rightarrow> string \<Rightarrow> exn + jsval" where
  "resolve_field obj fld = walk_path obj (split_on CHR ''.'' fld)"

text \<open>\<open>x.includes(v)\<close>: SameValueZero membership on an array (a hole reads as
  undefined), substring search for \<open>String(v)\<close> on a string, and a TypeError on a
  value that has no such method.\<close>

fun slot_value :: "jsval option \<Rightarrow> jsval" where
  "slot_value None = JUndefined"
| "slot_value (Some v) = v"

fun is_prefix :: "string \<Rightarrow> string \<Rightarrow> bool" where
  "is_prefix [] t = True"
| "is_prefix (c # s) [] = False"
| "is_prefix (c # s) (d # t) = (c = d \<and> is_prefix s t)"

fun is_substring :: "string \<Rightarrow> string \<Rightarrow> bool" where
  "is_substring s [] = (s = [])"
| "is_substring s (d # t) = (is_prefix s (d # t) \<or> is_substring s t)"

fun js_includes :: "js_env \<Rightarrow> jsval \<Rightarrow> jsval \<Rightarrow> exn + bool" where
  "js_includes env (JArr a xs) v = Inr (list_ex (\<lambda>slot. same_value_zero (slot_value slot) v) xs)"
| "js_includes env (JStr s) v = Inr (is_substring (to_string env v) s)"
| "js_includes env x v = Inl TypeError"

section \<open>The filter evaluator\<close>

text \<open>
  \<open>CrudFilter\<close> is a union: a logical filter with a field, an operator and an operand,
  or a conditional filter whose operator is \<open>or\<close> and whose value is a list of filters.
  The operator of a logical filter is kept as the string it is, so that an operator the
  \<open>switch\<close> does not know can be written down.

  The provider comes in two variants. Their \<open>applyFilter\<close> differ in where the
  \<open>switch\<close> stands (before \<open>data.filter\<close>, or inside its callback after the path
  walk); both walk the path first and test the value second for every record, which
  is what is modelled. The rest of the code modelled here is the same in both, but for a
  \<open>console.log\<close> in one \<open>biggestIdPlusOneStrategy\<close>, which is left out.
\<close>

datatype crud_filter =
    LogicalFilter string string jsval
  | ConditionalFilter "crud_filter list"

fun operator :: "crud_filter \<Rightarrow> string" where
  "operator (LogicalFilter f op v) = op"
| "operator (ConditionalFilter cs) = ''or''"

text \<open>The \<open>switch\<close> of \<open>applyFilter\<close>: the test one operator applies to the resolved
  value.\<close>

definition filterFn :: "js_env \<Rightarrow> string \<Rightarrow> jsval \<Rightarrow> jsval \<Rightarrow> exn + bool" where
  "filterFn env op operand v =
     (if op = ''eq'' then Inr (loose_eq env v operand)
      else if op = ''ne'' then Inr (\<not> loose_eq env v operand)
      else if op = ''lt'' then Inr (js_lt env v operand)
      else if op = ''gt'' then Inr (js_gt env v operand)
      else if op = ''lte'' then Inr (js_le env v operand)
      else if op = ''gte'' then Inr (js_ge env v operand)
      else if op = ''null'' then Inr (\<not> truthy v)
      else if op = ''nnull'' then Inr (truthy v)
      else if op = ''in'' then js_includes env operand v
      else if op = ''nin'' then try_bind (js_includes env operand v) (\<lambda>b. Inr (\<not> b))
      else Inr True)"

text \<open>The callback of \<open>data.filter\<close>: walk the dotted path, then test the value.\<close>

definition evaluate :: "js_env \<Rightarrow> string \<Rightarrow> string \<Rightarrow> jsval \<Rightarrow> jsval \<Rightarrow> exn + bool" where
  "evaluate env fld op operand obj =
     try_bind (resolve_field obj fld) (filterFn env op operand)"

text \<open>\<open>Array.prototype.filter\<close> with a callback that may throw: the first throw ends
  the call.\<close>

fun filter_array :: "('a \<Rightarrow> exn + bool) \<Rightarrow> 'a list \<Rightarrow> exn + 'a list" where
  "filter_array p [] = Inr []"
| "filter_array p (x # xs) =
     (case p x of
        Inl e \<Rightarrow> Inl e
      | Inr b \<Rightarrow>
          (case filter_array p xs of
             Inl e \<Rightarrow> Inl e
           | Inr ys \<Rightarrow> Inr (if b then x # ys else ys)))"

text \<open>\<open>applyFilter\<close>: no result (\<open>None\<close>, the \<open>undefined\<close> of a bare \<open>return\<close>) for an
  \<open>or\<close> filter or for missing data.\<close>

fun applyFilter :: "js_env \<Rightarrow> jsval list option \<Rightarrow> crud_filter \<Rightarrow> exn + jsval list option" where
  "applyFilter env dat (ConditionalFilter cs) = Inr None"
| "applyFilter env None (LogicalFilter fld op operand) = Inr None"
| "applyFilter env (Some objs) (LogicalFilter fld op operand) =
     (if op = ''or'' then Inr None
      else try_bind (filter_array (evaluate env fld op operand) objs) (\<lambda>out. Inr (Some out)))"

section \<open>The query engine\<close>

subsection \<open>Filtering\<close>

text \<open>The loop that pushes \<open>applyFilter(outData, childFilter)\<close> for every child.\<close>

fun apply_children :: "js_env \<Rightarrow> jsval list option \<Rightarrow> crud_filter list \<Rightarrow> exn + jsval list option list" where
  "apply_children env outData [] = Inr []"
| "apply_children env outData (c # cs) =
     try_bind (applyFilter env outData c)
       (\<lambda>r. try_bind (apply_children env outData cs) (\<lambda>rs. Inr (r # rs)))"

text \<open>\<open>childOut.flat()\<close>: an array entry is spread, an undefined entry stays.\<close>

fun flat :: "jsval list option list \<Rightarrow> jsval list" where
  "flat [] = []"
| "flat (None # rs) = JUndefined # flat rs"
| "flat (Some xs # rs) = xs @ flat rs"

text \<open>\<open>new Set(items)\<close> read back with \<open>forEach\<close>: insertion order, one entry per
  SameValueZero class.\<close>

definition set_add :: "jsval list \<Rightarrow> jsval \<Rightarrow> jsval list" where
  "set_add s v = (if list_ex (\<lambda>x. same_value_zero x v) s then s else s @ [v])"

definition new_Set :: "jsval list \<Rightarrow> jsval list" where
  "new_Set items = foldl set_add [] items"

definition or_union :: "jsval list option list \<Rightarrow> jsval list" where
  "or_union childOut = new_Set (filter truthy (flat childOut))"

text \<open>
  The body of \<open>filters.forEach\<close>. An object whose operator is \<open>or\<close> and whose value
  is a list of filters is a conditional filter; a logical filter carrying the operator
  string \<open>or\<close> stands for an object outside the \<open>CrudFilter\<close> type, whose value holds
  no filters to loop over, and the step is taken to raise on it.
\<close>

fun filter_step :: "js_env \<Rightarrow> jsval list option \<Rightarrow> crud_filter \<Rightarrow> exn + jsval list option" where
  "filter_step env outData (ConditionalFilter cs) =
     try_bind (apply_children env outData cs) (\<lambda>childOut. Inr (Some (or_union childOut)))"
| "filter_step env outData (LogicalFilter fld op operand) =
     (if op = ''or'' then Inl TypeError
      else applyFilter env outData (LogicalFilter fld op operand))"

fun apply_filters :: "js_env \<Rightarrow> jsval list option \<Rightarrow> crud_filter list \<Rightarrow> exn + jsval list option" where
  "apply_filters env outData [] = Inr outData"
| "apply_filters env outData (f # fs) =
     try_bind (filter_step env outData f) (\<lambda>out. apply_filters env out fs)"

subsection \<open>Sorting\<close>

record crud_sort =
  field :: string
  order :: string

text \<open>The comparator \<open>(a, b) => a[f] < b[f] ? -1 : 1\<close>.\<close>

definition compare_by :: "js_env \<Rightarrow> string \<Rightarrow> jsval \<Rightarrow> jsval \<Rightarrow> exn + int" where
  "compare_by env f a b =
     try_bind (get_prop a f)
       (\<lambda>x. try_bind (get_prop b f) (\<lambda>y. Inr (if js_lt env x y then - 1 else 1)))"

text \<open>\<open>less_at env f a b\<close>: the comparator answers that \<open>a\<close> goes before \<open>b\<close>.\<close>

definition less_at :: "js_env \<Rightarrow> string \<Rightarrow> jsval \<Rightarrow> jsval \<Rightarrow> bool" where
  "less_at env f a b = (compare_by env f a b = Inr (- 1))"

text \<open>
  \<open>Array.prototype.sort\<close>. Undefined entries go last and are never compared. For a
  comparator that never answers 0, as this one, the language leaves the order of the
  rest to the engine. The model takes the insertion sort that engines run on short
  arrays: each entry in turn, from the left, is put into the sorted part before the
  first entry it compares negative with, so entries that do not compare negative
  keep the order they came in. A throw of the comparator ends the sort.
\<close>

fun insert_by :: "('a \<Rightarrow> 'a \<Rightarrow> exn + int) \<Rightarrow> 'a \<Rightarrow> 'a list \<Rightarrow> exn + 'a list" where
  "insert_by cmp x [] = Inr [x]"
| "insert_by cmp x (y # ys) =
     try_bind (cmp x y)
       (\<lambda>c. if c < 0 then Inr (x # y # ys)
            else try_bind (insert_by cmp x ys) (\<lambda>r. Inr (y # r)))"

fun sort_from :: "('a \<Rightarrow> 'a \<Rightarrow> exn + int) \<Rightarrow> 'a list \<Rightarrow> 'a list \<Rightarrow> exn + 'a list" where
  "sort_from cmp done [] = Inr done"
| "sort_from cmp done (x # xs) =
     try_bind (insert_by cmp x done) (\<lambda>d. sort_from cmp d xs)"

definition array_sort :: "('a \<Rightarrow> 'a \<Rightarrow> exn + int) \<Rightarrow> 'a list \<Rightarrow> exn + 'a list" where
  "array_sort cmp xs = sort_from cmp [] xs"

definition js_sort :: "(jsval \<Rightarrow> jsval \<Rightarrow> exn + int) \<Rightarrow> jsval list \<Rightarrow> exn + jsval list" where
  "js_sort cmp xs =
     try_bind (array_sort cmp (filter (\<lambda>x. x \<noteq> JUndefined) xs))
       (\<lambda>ordered. Inr (ordered @ filter (\<lambda>x. x = JUndefined) xs))"

definition sort_data :: "js_env \<Rightarrow> crud_sort list option \<Rightarrow> jsval list \<Rightarrow> exn + jsval list" where
  "sort_data env sorting dat =
     (case sorting of
        None \<Rightarrow> Inr dat
      | Some [] \<Rightarrow> Inr dat
      | Some (k # ks) \<Rightarrow>
          try_bind (js_sort (compare_by env (field k)) dat)
            (\<lambda>ordered. Inr (if order k = ''desc'' then rev ordered else ordered)))"

subsection \<open>Pagination\<close>

record pagination =
  current :: "jsnum option"
  pageSize :: "jsnum option"

text \<open>The response envelopes \<open>{ data }\<close> and \<open>{ data, total }\<close>.\<close>

record 'a response =
  data :: 'a

record list_response = "jsval list response" +
  total :: nat

text \<open>\<open>x || d\<close> on an optional number.\<close>

definition or_default :: "jsnum option \<Rightarrow> jsnum \<Rightarrow> jsnum" where
  "or_default x d = (case x of None \<Rightarrow> d | Some n \<Rightarrow> (if truthy (JNum n) then n else d))"

text \<open>The relative index of \<open>slice\<close>: truncated towards zero, counted from the end when
  negative, clipped to the array.\<close>

definition js_trunc :: "rat \<Rightarrow> int" where
  "js_trunc r = (if r < 0 then \<lceil>r\<rceil> else \<lfloor>r\<rfloor>)"

definition slice_index :: "nat \<Rightarrow> jsnum \<Rightarrow> nat" where
  "slice_index len n =
     (case n of
        NaN \<Rightarrow> 0
      | NegInf \<Rightarrow> 0
      | PosInf \<Rightarrow> len
      | Fin r \<Rightarrow>
          (let i = js_trunc r
           in if i < 0 then nat (max (int len + i) 0) else min (nat i) len))"

definition slice :: "'a list \<Rightarrow> jsnum \<Rightarrow> jsnum \<Rightarrow> 'a list" where
  "slice xs start stop =
     (let k = slice_index (length xs) start; final = slice_index (length xs) stop
      in take (final - k) (drop k xs))"

text \<open>The page. Its bounds \<open>(current - 1) * pageSize\<close> and \<open>current * pageSize\<close> are taken
  exactly; \<open>paginate_rounding\<close> below shows that rounding them to doubles selects the
  same page of any array of at most \<open>2^53\<close> entries.\<close>

definition paginate :: "pagination option \<Rightarrow> jsval list \<Rightarrow> list_response" where
  "paginate pg dat =
     (let n = length dat;
          cur = or_default (case pg of None \<Rightarrow> None | Some p \<Rightarrow> current p) (Fin 1);
          size = or_default (case pg of None \<Rightarrow> None | Some p \<Rightarrow> pageSize p) (Fin 10);
          start = num_mul (num_sub cur (Fin 1)) size;
          stop = num_mul cur size
      in \<lparr>data = slice dat start stop, total = n\<rparr>)"

section \<open>The provider\<close>

text \<open>
  The settled state of the promise an \<open>async\<close> method returns. Beside it, a method
  reports the reasons of the rejected promises it created with a bare
  \<open>Promise.reject(...)\<close> statement and dropped: they settle nothing.
\<close>

datatype 'a settled = Resolved 'a | Rejected exn

text \<open>
  The calls into the Firebase SDK, over a database state \<open>'db\<close>: \<open>get\<close> answers with
  the value of a snapshot (\<open>None\<close> when \<open>exists()\<close> is false) and \<open>set\<close> writes a node;
  either may throw.
\<close>

record 'db store_api =
  store_get :: "'db \<Rightarrow> string \<Rightarrow> exn + jsval option"
  store_set :: "'db \<Rightarrow> string \<Rightarrow> jsval \<Rightarrow> exn + 'db"

text \<open>The entries of an array that are not holes: what \<open>Object.values\<close>, \<open>map\<close>,
  \<open>filter\<close> and \<open>reduce\<close> visit.\<close>

fun present :: "jsval option list \<Rightarrow> jsval list" where
  "present [] = []"
| "present (None # xs) = present xs"
| "present (Some v # xs) = v # present xs"

text \<open>\<open>Object.values\<close>.\<close>

fun object_values :: "jsval \<Rightarrow> exn + jsval list" where
  "object_values JUndefined = Inl TypeError"
| "object_values JNull = Inl TypeError"
| "object_values (JBool b) = Inr []"
| "object_values (JNum n) = Inr []"
| "object_values (JStr s) = Inr (map (\<lambda>c. JStr [c]) s)"
| "object_values (JObj a fs) = Inr (map snd fs)"
| "object_values (JArr a xs) = Inr (present xs)"

subsection \<open>getList, getOne, getMany\<close>

definition getList_try ::
  "js_env \<Rightarrow> 'db store_api \<Rightarrow> 'db \<Rightarrow> string \<Rightarrow> pagination option \<Rightarrow> crud_sort list option \<Rightarrow>
   crud_filter list option \<Rightarrow> exn + (list_response option \<times> exn list)" where
  "getList_try env api db resource pg sorting filters =
     try_bind (store_get api db resource) (\<lambda>snapshot.
       case snapshot of
         None \<Rightarrow> Inr (None, [Reason JUndefined])
       | Some v \<Rightarrow>
           try_bind (object_values v) (\<lambda>dat.
           try_bind (case filters of
                       None \<Rightarrow> Inr (Some dat)
                     | Some fs \<Rightarrow> apply_filters env (Some dat) fs) (\<lambda>outData.
           case outData of
             None \<Rightarrow> Inl TypeError
           | Some filtered \<Rightarrow>
               try_bind (sort_data env sorting filtered) (\<lambda>ordered.
               Inr (Some (paginate pg ordered), [])))))"

text \<open>The \<open>catch\<close> block is \<open>Promise.reject(error);\<close> with no \<open>return\<close>: the method goes
  on to its end and its promise resolves with undefined (\<open>None\<close>).\<close>

definition caught :: "exn + ('a option \<times> exn list) \<Rightarrow> 'a option settled \<times> exn list" where
  "caught r = (case r of Inl e \<Rightarrow> (Resolved None, [e]) | Inr (v, dropped) \<Rightarrow> (Resolved v, dropped))"

definition getList ::
  "js_env \<Rightarrow> 'db store_api \<Rightarrow> 'db \<Rightarrow> string \<Rightarrow> pagination option \<Rightarrow> crud_sort list option \<Rightarrow>
   crud_filter list option \<Rightarrow> list_response option settled \<times> exn list" where
  "getList env api db resource pg sorting filters =
     caught (getList_try env api db resource pg sorting filters)"

definition getOne ::
  "js_env \<Rightarrow> 'db store_api \<Rightarrow> 'db \<Rightarrow> string \<Rightarrow> jsval \<Rightarrow> jsval response option settled \<times> exn list" where
  "getOne env api db resource ident =
     caught
       (try_bind (store_get api db (resource @ ''/'' @ to_string env ident)) (\<lambda>snapshot.
          case snapshot of
            None \<Rightarrow> Inr (None, [Reason (JStr [])])
          | Some v \<Rightarrow> Inr (Some \<lparr>data = v\<rparr>, [])))"

text \<open>\<open>snapshot.val().filter(...)\<close>: only an array has the method; holes are skipped.\<close>

definition getMany ::
  "js_env \<Rightarrow> 'db store_api \<Rightarrow> 'db \<Rightarrow> string \<Rightarrow> jsval list \<Rightarrow>
   jsval list response option settled \<times> exn list" where
  "getMany env api db resource ids =
     caught
       (try_bind (store_get api db resource) (\<lambda>snapshot.
          case snapshot of
            None \<Rightarrow> Inr (None, [Reason JUndefined])
          | Some (JArr a xs) \<Rightarrow>
              try_bind
                (filter_array
                   (\<lambda>item. try_bind (get_prop item ''id'')
                              (\<lambda>i. Inr (list_ex (\<lambda>x. same_value_zero x i) ids)))
                   (present xs))
                (\<lambda>found. Inr (Some \<lparr>data = found\<rparr>, []))
          | Some v \<Rightarrow> Inl TypeError))"

subsection \<open>Allocating an id, creating a record\<close>

text \<open>\<open>data.map(...)\<close> with a callback that may throw.\<close>

fun map_array :: "('a \<Rightarrow> exn + 'b) \<Rightarrow> 'a list \<Rightarrow> exn + 'b list" where
  "map_array f [] = Inr []"
| "map_array f (x # xs) =
     try_bind (f x) (\<lambda>y. try_bind (map_array f xs) (\<lambda>ys. Inr (y # ys)))"

text \<open>The callback \<open>(item) => Number(item.id)\<close>.\<close>

definition id_number :: "js_env \<Rightarrow> jsval \<Rightarrow> exn + jsnum" where
  "id_number env item = try_bind (get_prop item ''id'') (\<lambda>i. Inr (to_number env i))"

text \<open>The reducer \<open>(max, current) => (current > max ? current : max)\<close>.\<close>

definition bigger :: "jsnum \<Rightarrow> jsnum \<Rightarrow> jsnum" where
  "bigger mx cur = (if num_less mx cur = Some True then cur else mx)"

text \<open>
  \<open>biggestIdPlusOneStrategy\<close> has no \<open>try\<close>: a throw rejects its promise, and a missing
  resource is rejected by \<open>return Promise.reject("")\<close>. \<open>map\<close> and \<open>reduce\<close> skip the
  holes of the array; a value that is not an array has no \<open>map\<close>.
\<close>

definition biggestIdPlusOneStrategy :: "js_env \<Rightarrow> 'db store_api \<Rightarrow> 'db \<Rightarrow> string \<Rightarrow> jsnum settled" where
  "biggestIdPlusOneStrategy env api db resource =
     (case store_get api db resource of
        Inl e \<Rightarrow> Rejected e
      | Inr None \<Rightarrow> Rejected (Reason (JStr []))
      | Inr (Some (JArr a xs)) \<Rightarrow>
          (case map_array (id_number env) (present xs) of
             Inl e \<Rightarrow> Rejected e
           | Inr ids \<Rightarrow> Resolved (js_add (foldl bigger (Fin 0) ids) (Fin 1)))
      | Inr (Some v) \<Rightarrow> Rejected TypeError)"

text \<open>The decimal name of an array index.\<close>

fun decimal :: "nat \<Rightarrow> string" where
  "decimal n =
     (if n < 10 then [''0123456789'' ! n]
      else decimal (n div 10) @ [''0123456789'' ! (n mod 10)])"

text \<open>The own enumerable properties \<open>{...v}\<close> copies.\<close>

fun indexed :: "nat \<Rightarrow> jsval option list \<Rightarrow> (string \<times> jsval) list" where
  "indexed i [] = []"
| "indexed i (None # xs) = indexed (Suc i) xs"
| "indexed i (Some v # xs) = (decimal i, v) # indexed (Suc i) xs"

fun spread :: "jsval \<Rightarrow> (string \<times> jsval) list" where
  "spread (JObj a fs) = fs"
| "spread (JArr a xs) = indexed 0 xs"
| "spread (JStr s) = indexed 0 (map (\<lambda>c. Some (JStr [c])) s)"
| "spread v = []"

text \<open>Defining a property in an object literal: an existing key keeps its place.\<close>

definition set_prop :: "(string \<times> jsval) list \<Rightarrow> string \<Rightarrow> jsval \<Rightarrow> (string \<times> jsval) list" where
  "set_prop fs k v =
     (if k \<in> fst ` set fs then map (\<lambda>(k', w). if k' = k then (k', v) else (k', w)) fs
      else fs @ [(k, v)])"

text \<open>
  \<open>createData\<close>. \<open>getCreateId\<close> is the strategy the provider was built with, and \<open>a\<close> the
  address at which the engine allocates the payload object.
\<close>

definition createData ::
  "js_env \<Rightarrow> 'db store_api \<Rightarrow> ('db \<Rightarrow> string \<Rightarrow> jsval settled) \<Rightarrow> nat \<Rightarrow> 'db \<Rightarrow> string \<Rightarrow> jsval \<Rightarrow>
   (jsval response option settled \<times> exn list) \<times> 'db" where
  "createData env api getCreateId a db resource variables =
     (case getCreateId db resource of
        Rejected e \<Rightarrow> ((Resolved None, [e]), db)
      | Resolved ident \<Rightarrow>
          (let payload = JObj a (set_prop (spread variables) ''id'' ident)
           in case store_set api db (resource @ ''/'' @ to_string env ident) payload of
                Inl e \<Rightarrow> ((Resolved None, [e]), db)
              | Inr db' \<Rightarrow> ((Resolved (Some \<lparr>data = payload\<rparr>), []), db')))"

text \<open>The strategy a provider built without options uses.\<close>

definition default_getCreateId :: "js_env \<Rightarrow> 'db store_api \<Rightarrow> 'db \<Rightarrow> string \<Rightarrow> jsval settled" where
  "default_getCreateId env api db resource =
     (case biggestIdPlusOneStrategy env api db resource of
        Resolved n \<Rightarrow> Resolved (JNum n)
      | Rejected e \<Rightarrow> Rejected e)"

section \<open>A small engine and two stores\<close>

text \<open>
  For running the provider on concrete inputs: an engine that reads and prints unsigned
  decimal integers (the empty string reads as 0, anything else is not a number), a
  store that keeps each node under its path, a store that refuses every write, and a
  store whose every call throws.
\<close>

definition read_decimal :: "string \<Rightarrow> jsnum" where
  "read_decimal s =
     (if s = [] then Fin 0
      else (case digits_value 0 s of None \<Rightarrow> NaN | Some n \<Rightarrow> Fin (of_nat n)))"

definition print_number :: "jsnum \<Rightarrow> string" where
  "print_number n =
     (case n of
        NaN \<Rightarrow> ''NaN''
      | NegInf \<Rightarrow> ''-Infinity''
      | PosInf \<Rightarrow> ''Infinity''
      | Fin r \<Rightarrow> (if 0 \<le> r \<and> of_int \<lfloor>r\<rfloor> = r then decimal (nat \<lfloor>r\<rfloor>) else ''?''))"

definition engine :: js_env where
  "engine = \<lparr>string_to_number = read_decimal, number_to_string = print_number\<rparr>"

definition memory_store :: "(string \<times> jsval) list store_api" where
  "memory_store =
     \<lparr>store_get = (\<lambda>db path. Inr (map_of db path)),
      store_set = (\<lambda>db path v. Inr ((path, v) # db))\<rparr>"

definition readonly_store :: "(string \<times> jsval) list store_api" where
  "readonly_store =
     \<lparr>store_get = (\<lambda>db path. Inr (map_of db path)),
      store_set = (\<lambda>db path v. Inl (StoreError ''permission denied''))\<rparr>"

definition offline_store :: "(string \<times> jsval) list store_api" where
  "offline_store =
     \<lparr>store_get = (\<lambda>db path. Inl (StoreError ''offline'')),
      store_set = (\<lambda>db path v. Inl (StoreError ''offline''))\<rparr>"

section \<open>Properties of rounding\<close>

text \<open>The exponent found by halving is the binary exponent.\<close>

lemma exponent_up_bounds:
  "1 \<le> x \<Longrightarrow> 2 ^ exponent_up x \<le> x \<and> x < 2 ^ Suc (exponent_up x)"
proof (induction x rule: exponent_up.induct)
  case (1 x)
  show ?case
  proof (cases "x < 2")
    case True
    with "1.prems" show ?thesis by (simp add: exponent_up.simps)
  next
    case False
    then have "1 \<le> x / 2" by simp
    with "1.IH" False have "2 ^ exponent_up (x / 2) \<le> x / 2 \<and> x / 2 < 2 ^ Suc (exponent_up (x / 2))"
      by blast
    moreover have "exponent_up x = Suc (exponent_up (x / 2))"
      using False by (simp add: exponent_up.simps [of x])
    ultimately show ?thesis by simp
  qed
qed

lemma exponent_up_unique:
  assumes "2 ^ e \<le> x" and "x < 2 ^ Suc e"
  shows "exponent_up x = e"
proof -
  have "1 \<le> x" using assms(1) one_le_power [of "2 :: rat" e] by linarith
  then have b: "2 ^ exponent_up x \<le> x" "x < 2 ^ Suc (exponent_up x)"
    using exponent_up_bounds by blast+
  have "(2 :: rat) ^ exponent_up x < 2 ^ Suc e" using b(1) assms(2) by linarith
  then have "exponent_up x < Suc e" by (rule power_less_imp_less_exp [rotated]) simp
  moreover have "(2 :: rat) ^ e < 2 ^ Suc (exponent_up x)" using b(2) assms(1) by linarith
  then have "e < Suc (exponent_up x)" by (rule power_less_imp_less_exp [rotated]) simp
  ultimately show ?thesis by simp
qed

lemma round_half_even_int: "round_half_even (of_int n) = n"
  by (simp add: round_half_even_def)

lemma round_half_even_ge: "of_int m \<le> y \<Longrightarrow> m \<le> round_half_even y"
proof -
  assume "of_int m \<le> y"
  then have "m \<le> \<lfloor>y\<rfloor>" by (simp add: le_floor_iff)
  then show ?thesis by (simp add: round_half_even_def Let_def)
qed

lemma round_double_int:
  assumes "\<bar>n\<bar> \<le> 2 ^ 53"
  shows "round_double (of_int n) = Fin (of_int n)"
proof (cases "n = 0")
  case True
  then show ?thesis by (simp add: round_double_def)
next
  case False
  define x :: rat where "x = of_int n"
  define e where "e = exponent_up \<bar>x\<bar>"
  have one: "1 \<le> \<bar>x\<bar>" using False by (simp add: x_def flip: of_int_abs)
  have le: "\<bar>x\<bar> \<le> 2 ^ 53"
    using assms unfolding x_def by (metis of_int_abs of_int_le_iff of_int_numeral of_int_power)
  have b: "2 ^ e \<le> \<bar>x\<bar>" "\<bar>x\<bar> < 2 ^ Suc e"
    using exponent_up_bounds [OF one] by (simp_all add: e_def)
  have "(2 :: rat) ^ e < 2 ^ Suc 53" using b(1) le by simp
  then have "e < Suc 53" by (rule power_less_imp_less_exp [rotated]) simp
  then have e53: "e \<le> 53" by simp
  have ex: "max (exponent x) (- 1022) - 52 = int e - 52"
    using one by (simp add: exponent_def e_def)
  have r: "of_int (round_half_even (x / pow2 (int e - 52))) * pow2 (int e - 52) = x"
  proof (cases "e \<le> 52")
    case True
    then have q: "pow2 (int e - 52) = 1 / 2 ^ (52 - e)"
      by (cases "e = 52") (simp_all add: pow2_def nat_diff_distrib')
    have "x / (1 / 2 ^ (52 - e)) = of_int (n * 2 ^ (52 - e))"
      by (simp add: x_def)
    then have "round_half_even (x / pow2 (int e - 52)) = n * 2 ^ (52 - e)"
      unfolding q by (simp only: round_half_even_int)
    then show ?thesis
      unfolding q by (simp add: x_def)
  next
    case False
    with e53 have e: "e = 53" by simp
    then have q: "pow2 (int e - 52) = 2" by (simp add: pow2_def)
    have "\<bar>x\<bar> = 2 ^ 53" using b(1) le e by simp
    then have "\<bar>n\<bar> = 2 ^ 53"
      unfolding x_def by (metis of_int_abs of_int_eq_iff of_int_numeral of_int_power)
    then have "n = 2 ^ 53 \<or> n = - (2 ^ 53)" by linarith
    then obtain m :: int where m: "n = 2 * m" by fastforce
    then have half: "x / 2 = of_int m"
      by (simp add: x_def)
    then have "round_half_even (x / pow2 (int e - 52)) = m"
      unfolding q by (simp only: round_half_even_int)
    then show ?thesis
      unfolding q using half by simp
  qed
  have "\<bar>x\<bar> < 2 ^ 1024" using le by (rule le_less_trans) simp
  then show ?thesis
    using False r ex unfolding x_def [symmetric]
    by (simp add: round_double_def Let_def x_def)
qed


lemma round_double_above_safe: "round_double (2 ^ 53 + 1) = Fin (2 ^ 53)"
proof -
  have "exponent_up (2 ^ 53 + 1) = 53"
    by (rule exponent_up_unique) simp_all
  then have ex: "max (exponent (2 ^ 53 + 1)) (- 1022) - 52 = 1"
    by (simp add: exponent_def)
  have "\<lfloor>(2 ^ 53 + 1) / 2 :: rat\<rfloor> = 2 ^ 52"
    by (rule floor_unique) simp_all
  then have "round_half_even ((2 ^ 53 + 1) / 2) = 2 ^ 52"
    by (simp add: round_half_even_def Let_def)
  then show ?thesis
    unfolding round_double_def ex by (simp add: pow2_def Let_def)
qed

lemma round_double_large:
  assumes "2 ^ 53 \<le> x"
  shows "round_double x = PosInf \<or> (\<exists>r. round_double x = Fin r \<and> 2 ^ 53 \<le> r)"
proof -
  define e where "e = exponent_up x"
  have pos: "0 < x" "1 \<le> x" "\<bar>x\<bar> = x"
    using assms by (simp_all add: order.strict_trans2 [of 0 "2 ^ 53"] order.trans [of 1 "2 ^ 53"])
  have b: "2 ^ e \<le> x" "x < 2 ^ Suc e"
    using exponent_up_bounds [OF pos(2)] by (simp_all add: e_def)
  have "(2 :: rat) ^ 53 < 2 ^ Suc e" using b(2) assms by linarith
  then have "53 < Suc e" by (rule power_less_imp_less_exp [rotated]) simp
  then have e: "53 \<le> e" by simp
  have ex: "max (exponent x) (- 1022) - 52 = int (e - 52)"
    using pos e by (simp add: exponent_def e_def)
  define q :: rat where "q = 2 ^ (e - 52)"
  have q: "pow2 (int (e - 52)) = q" "0 < q"
    by (simp_all add: pow2_def q_def)
  have "(2 :: rat) ^ (52 + (e - 52)) = 2 ^ 52 * 2 ^ (e - 52)"
    by (rule power_add)
  moreover have "52 + (e - 52) = e" using e by simp
  ultimately have split: "(2 :: rat) ^ e = 2 ^ 52 * q"
    by (simp only: q_def)
  then have "of_int (2 ^ 52) \<le> x / q"
    using b(1) q(2) by (simp add: pos_le_divide_eq)
  then have "2 ^ 52 \<le> round_half_even (x / q)"
    by (rule round_half_even_ge)
  then have "(2 :: rat) ^ 52 \<le> of_int (round_half_even (x / q))"
    by (metis of_int_le_iff of_int_numeral of_int_power)
  then have "2 ^ 52 * q \<le> of_int (round_half_even (x / q)) * q"
    using q(2) by simp
  then have "2 ^ e \<le> of_int (round_half_even (x / q)) * q"
    by (simp only: split)
  moreover have "(2 :: rat) ^ 53 \<le> 2 ^ e"
    using e by (intro power_increasing) simp_all
  ultimately have big: "2 ^ 53 \<le> of_int (round_half_even (x / q)) * q"
    by linarith
  show ?thesis
    using pos(1) big unfolding round_double_def ex q(1)
    by (simp add: Let_def)
qed

lemma round_double_numeral:
  "(numeral k :: int) \<le> 2 ^ 53 \<Longrightarrow> round_double (numeral k) = Fin (numeral k)"
  using round_double_int [of "numeral k"] by simp

lemma round_double_neg_numeral:
  "(numeral k :: int) \<le> 2 ^ 53 \<Longrightarrow> round_double (- numeral k) = Fin (- numeral k)"
  using round_double_int [of "- numeral k"] by simp

lemma round_double_one: "round_double 1 = Fin 1"
  using round_double_int [of 1] by simp

lemmas round_small = round_double_numeral round_double_neg_numeral round_double_one

section \<open>Properties of the filter evaluator\<close>

lemma walk_path_append:
  "walk_path v (ps @ qs) = try_bind (walk_path v ps) (\<lambda>w. walk_path w qs)"
  by (induction ps arbitrary: v) (auto simp: try_bind_def split: sum.splits)

lemma filter_array_all_true:
  "\<forall>x\<in>set xs. p x = Inr True \<Longrightarrow> filter_array p xs = Inr xs"
  by (induction xs) auto

lemma applyFilter_or: "operator c = ''or'' \<Longrightarrow> applyFilter env outData c = Inr None"
  by (cases c; cases outData) auto

text \<open>
  C2, as the code has it. The path walk reads a property of whatever the previous
  segment gave. When a segment before the last gives undefined, reading the next one
  raises a TypeError, and the evaluator raises it for that record whatever the
  operator. Only when it is the last segment that gives undefined is the resolved
  value undefined without an error, and then \<open>nnull\<close> evaluates to false.
\<close>

theorem field_path_through_undefined:
  assumes "split_on CHR ''.'' fld = pre @ k # rest"
    and "walk_path obj (pre @ [k]) = Inr JUndefined"
  shows "(rest \<noteq> [] \<longrightarrow> resolve_field obj fld = Inl TypeError
            \<and> evaluate env fld op operand obj = Inl TypeError)
       \<and> (rest = [] \<longrightarrow> resolve_field obj fld = Inr JUndefined
            \<and> evaluate env fld ''nnull'' operand obj = Inr False)"
proof -
  have split: "split_on CHR ''.'' fld = (pre @ [k]) @ rest"
    using assms(1) by simp
  have "walk_path obj ((pre @ [k]) @ rest)
          = try_bind (walk_path obj (pre @ [k])) (\<lambda>w. walk_path w rest)"
    by (rule walk_path_append)
  then have walk: "resolve_field obj fld = walk_path JUndefined rest"
    unfolding resolve_field_def split assms(2) by (simp add: try_bind_def)
  show ?thesis
  proof (cases rest)
    case Nil
    then show ?thesis
      using walk by (simp add: evaluate_def filterFn_def try_bind_def)
  next
    case (Cons s ss)
    then show ?thesis
      using walk by (simp add: evaluate_def try_bind_def)
  qed
qed

theorem field_path_through_undefined_witness:
  "evaluate engine ''meta.flag'' ''nnull'' JUndefined (JObj 1 [(''id'', JNum (Fin 1))]) = Inl TypeError
   \<and> evaluate engine ''meta'' ''nnull'' JUndefined (JObj 1 [(''id'', JNum (Fin 1))]) = Inr False"
  using field_path_through_undefined
          [of "''meta.flag''" "[]" "''meta''" "[''flag'']" "JObj 1 [(''id'', JNum (Fin 1))]"
              engine "''nnull''" JUndefined]
        field_path_through_undefined
          [of "''meta''" "[]" "''meta''" "[]" "JObj 1 [(''id'', JNum (Fin 1))]"
              engine "''nnull''" JUndefined]
  by simp

text \<open>The record of scenario D has no \<open>meta\<close> key: the walk of \<open>meta.flag\<close> raises, and
  so does the filter.\<close>

theorem nnull_missing_parent_raises:
  "resolve_field (JObj 1 [(''id'', JNum (Fin 1))]) ''meta.flag'' = Inl TypeError
   \<and> evaluate engine ''meta.flag'' ''nnull'' JUndefined (JObj 1 [(''id'', JNum (Fin 1))])
       = Inl TypeError
   \<and> applyFilter engine (Some [JObj 1 [(''id'', JNum (Fin 1))]])
       (LogicalFilter ''meta.flag'' ''nnull'' JUndefined) = Inl TypeError"
  by (simp add: evaluate_def resolve_field_def try_bind_def)

text \<open>
  C7. On a record whose field path resolves to a value \<open>v\<close>, the operator \<open>eq\<close> answers
  the loose equality \<open>v == operand\<close> and \<open>ne\<close> its negation; the filter keeps or drops
  the record accordingly.
\<close>

theorem eq_is_loose_equality:
  assumes "resolve_field r fld = Inr v"
  shows "evaluate env fld ''eq'' operand r = Inr (loose_eq env v operand)
       \<and> evaluate env fld ''ne'' operand r = Inr (\<not> loose_eq env v operand)
       \<and> applyFilter env (Some [r]) (LogicalFilter fld ''eq'' operand)
           = Inr (Some (if loose_eq env v operand then [r] else []))
       \<and> applyFilter env (Some [r]) (LogicalFilter fld ''ne'' operand)
           = Inr (Some (if loose_eq env v operand then [] else [r]))"
  using assms by (simp add: evaluate_def filterFn_def try_bind_def)

text \<open>The string \<open>"7"\<close> equals the number 7 loosely, not strictly.\<close>

theorem eq_is_loose_equality_witness:
  "evaluate engine ''address.zip'' ''eq'' (JNum (Fin 7))
       (JObj 1 [(''id'', JNum (Fin 1)), (''address'', JObj 2 [(''zip'', JStr ''7'')])]) = Inr True
   \<and> \<not> strict_eq (JStr ''7'') (JNum (Fin 7))
   \<and> evaluate engine ''address.zip'' ''ne'' (JNum (Fin 7))
       (JObj 1 [(''id'', JNum (Fin 1)), (''address'', JObj 2 [(''zip'', JStr ''7'')])]) = Inr False"
  using eq_is_loose_equality
          [of "JObj 1 [(''id'', JNum (Fin 1)), (''address'', JObj 2 [(''zip'', JStr ''7'')])]"
              "''address.zip''" "JStr ''7''" engine "JNum (Fin 7)"]
  by (simp add: resolve_field_def loose_eq_def engine_def read_decimal_def digit_of_def
        to_primitive_def)

text \<open>
  C8, as the code has it. An operator that is none of the recognized kinds tests
  nothing, but the path walk still runs before the test. On a candidate set whose
  every record resolves the field path without an error, the evaluator answers true
  for every record and the filter returns the set unchanged.
\<close>

theorem unrecognized_operator_keeps_all:
  assumes "op \<notin> {''eq'', ''ne'', ''lt'', ''gt'', ''lte'', ''gte'', ''null'', ''nnull'',
                  ''in'', ''nin'', ''or''}"
    and "\<forall>r\<in>set S. \<exists>v. resolve_field r fld = Inr v"
  shows "(\<forall>r\<in>set S. evaluate env fld op operand r = Inr True)
       \<and> applyFilter env (Some S) (LogicalFilter fld op operand) = Inr (Some S)"
proof -
  have ev: "\<forall>r\<in>set S. evaluate env fld op operand r = Inr True"
    using assms by (auto simp: evaluate_def filterFn_def try_bind_def)
  then have "filter_array (evaluate env fld op operand) S = Inr S"
    by (rule filter_array_all_true)
  then show ?thesis
    using ev assms(1) by (simp add: try_bind_def)
qed

theorem unrecognized_operator_keeps_all_witness:
  "applyFilter engine
     (Some [JObj 1 [(''id'', JNum (Fin 1))], JObj 2 [(''id'', JNum (Fin 2))]])
     (LogicalFilter ''name'' ''contains'' (JStr ''x''))
   = Inr (Some [JObj 1 [(''id'', JNum (Fin 1))], JObj 2 [(''id'', JNum (Fin 2))]])"
  using unrecognized_operator_keeps_all
          [of "''contains''" "[JObj 1 [(''id'', JNum (Fin 1))], JObj 2 [(''id'', JNum (Fin 2))]]"
              "''name''" engine "JStr ''x''"]
  by (simp add: resolve_field_def try_bind_def)

text \<open>With the operator \<open>contains\<close> and the path \<open>meta.flag\<close>, a record with no \<open>meta\<close>
  key makes the evaluator and the filter raise.\<close>

theorem unrecognized_operator_may_raise:
  "evaluate engine ''meta.flag'' ''contains'' (JStr ''x'') (JObj 1 [(''id'', JNum (Fin 1))])
     = Inl TypeError
   \<and> applyFilter engine (Some [JObj 1 [(''id'', JNum (Fin 1))]])
        (LogicalFilter ''meta.flag'' ''contains'' (JStr ''x'')) = Inl TypeError"
  by (simp add: evaluate_def resolve_field_def try_bind_def)

section \<open>Properties of the query engine\<close>

lemma apply_children_drop_or:
  "map_sum id (\<lambda>rs. filter truthy (flat rs)) (apply_children env outData cs)
   = map_sum id (\<lambda>rs. filter truthy (flat rs))
       (apply_children env outData (filter (\<lambda>c. operator c \<noteq> ''or'') cs))"
proof (induction cs)
  case Nil
  then show ?case by simp
next
  case (Cons c cs)
  show ?case
  proof (cases "operator c = ''or''")
    case True
    then have "applyFilter env outData c = Inr None"
      by (rule applyFilter_or)
    with True Cons show ?thesis
      by (cases "apply_children env outData cs";
          cases "apply_children env outData (filter (\<lambda>c. operator c \<noteq> ''or'') cs)")
         (simp_all add: try_bind_def)
  next
    case False
    show ?thesis
    proof (cases "applyFilter env outData c")
      case (Inl e)
      with False show ?thesis by (simp add: try_bind_def)
    next
      case (Inr r)
      with False Cons show ?thesis
        by (cases "apply_children env outData cs";
            cases "apply_children env outData (filter (\<lambda>c. operator c \<noteq> ''or'') cs)";
            cases r)
           (simp_all add: try_bind_def)
    qed
  qed
qed

lemma filter_step_or_via:
  "filter_step env outData (ConditionalFilter cs)
   = (case map_sum id (\<lambda>rs. filter truthy (flat rs)) (apply_children env outData cs) of
        Inl e \<Rightarrow> Inl e
      | Inr xs \<Rightarrow> Inr (Some (new_Set xs)))"
  by (cases "apply_children env outData cs") (simp_all add: try_bind_def or_union_def)

text \<open>
  C9. Inside an \<open>or\<close> filter, a child whose operator is itself \<open>or\<close> gets no result
  from \<open>applyFilter\<close> and no error; the step over the children is the step over the
  children that are not \<open>or\<close> filters, so dropping such a child changes nothing.
\<close>

theorem nested_or_child_ignored:
  "filter_step env outData (ConditionalFilter cs)
     = filter_step env outData (ConditionalFilter (filter (\<lambda>c. operator c \<noteq> ''or'') cs))
   \<and> (operator c = ''or'' \<longrightarrow>
        applyFilter env outData c = Inr None
        \<and> filter_step env outData (ConditionalFilter (pre @ c # post))
            = filter_step env outData (ConditionalFilter (pre @ post)))"
proof -
  have drop: "filter_step env outData (ConditionalFilter ds)
     = filter_step env outData (ConditionalFilter (filter (\<lambda>c. operator c \<noteq> ''or'') ds))" for ds
    unfolding filter_step_or_via apply_children_drop_or [of env outData ds] ..
  have "operator c = ''or'' \<Longrightarrow>
        filter_step env outData (ConditionalFilter (pre @ c # post))
          = filter_step env outData (ConditionalFilter (pre @ post))"
    using drop [of "pre @ c # post"] drop [of "pre @ post"] by simp
  then show ?thesis
    using drop [of cs] applyFilter_or [of c env outData] by blast
qed

theorem nested_or_child_ignored_witness:
  "filter_step engine (Some [JObj 1 [(''age'', JNum (Fin 20))], JObj 2 [(''age'', JNum (Fin 30))]])
     (ConditionalFilter
        [LogicalFilter ''age'' ''lt'' (JNum (Fin 25)),
         ConditionalFilter [LogicalFilter ''age'' ''gt'' (JNum (Fin 25))]])
   = Inr (Some [JObj 1 [(''age'', JNum (Fin 20))]])
   \<and> applyFilter engine (Some [JObj 1 [(''age'', JNum (Fin 20))], JObj 2 [(''age'', JNum (Fin 30))]])
       (ConditionalFilter [LogicalFilter ''age'' ''gt'' (JNum (Fin 25))]) = Inr None"
proof -
  have op: "operator (ConditionalFilter [LogicalFilter ''age'' ''gt'' (JNum (Fin 25))]) = ''or''"
    by simp
  have one: "filter_step engine
       (Some [JObj 1 [(''age'', JNum (Fin 20))], JObj 2 [(''age'', JNum (Fin 30))]])
       (ConditionalFilter [LogicalFilter ''age'' ''lt'' (JNum (Fin 25))])
     = Inr (Some [JObj 1 [(''age'', JNum (Fin 20))]])"
    by (simp add: try_bind_def evaluate_def resolve_field_def filterFn_def js_lt_def
          is_less_than_def to_primitive_def to_number_def or_union_def new_Set_def set_add_def)
  show ?thesis
    using nested_or_child_ignored
            [of engine "Some [JObj 1 [(''age'', JNum (Fin 20))], JObj 2 [(''age'', JNum (Fin 30))]]"
                "[]" "ConditionalFilter [LogicalFilter ''age'' ''gt'' (JNum (Fin 25))]"
                "[LogicalFilter ''age'' ''lt'' (JNum (Fin 25))]" "[]"]
          op one
    by simp
qed

lemma apply_filters_append:
  "apply_filters env outData (fs @ gs)
   = try_bind (apply_filters env outData fs) (\<lambda>out. apply_filters env out gs)"
  by (induction fs arbitrary: outData) (auto simp: try_bind_def split: sum.splits)

lemma filter_array_subset: "filter_array p xs = Inr ys \<Longrightarrow> set ys \<subseteq> set xs"
  by (induction xs arbitrary: ys) (auto split: sum.splits if_splits)

lemma applyFilter_subset:
  "applyFilter env (Some S) c = Inr (Some sub) \<Longrightarrow> set sub \<subseteq> set S"
  by (cases c) (auto simp: try_bind_def split: if_splits sum.splits dest: filter_array_subset)

lemma same_value_zero_objects:
  "is_object x \<Longrightarrow> is_object y \<Longrightarrow> same_value_zero x y = (ref_of x = ref_of y)"
  by (cases x; cases y) auto

lemma set_add_known:
  assumes "\<forall>x\<in>A. \<forall>y\<in>A. same_value_zero x y = (x = y)" and "set s \<subseteq> A" and "v \<in> A"
  shows "set_add s v = (if v \<in> set s then s else s @ [v])"
proof -
  have "list_ex (\<lambda>x. same_value_zero x v) s = (v \<in> set s)"
    using assms by (auto simp: list_ex_iff)
  then show ?thesis by (simp add: set_add_def)
qed

lemma foldl_set_add:
  assumes "\<forall>x\<in>A. \<forall>y\<in>A. same_value_zero x y = (x = y)"
    and "set s \<subseteq> A" and "set xs \<subseteq> A" and "distinct s"
  shows "set (foldl set_add s xs) = set s \<union> set xs \<and> distinct (foldl set_add s xs)"
  using assms(2-4)
proof (induction xs arbitrary: s)
  case Nil
  then show ?case by simp
next
  case (Cons v xs)
  have step: "set_add s v = (if v \<in> set s then s else s @ [v])"
    using assms(1) Cons.prems by (intro set_add_known) auto
  have "set (set_add s v) \<subseteq> A" "distinct (set_add s v)" "set xs \<subseteq> A"
    using Cons.prems by (auto simp: step)
  from Cons.IH [OF this(1) this(3) this(2)] show ?case
    by (auto simp: step)
qed

lemma apply_children_flat:
  assumes "\<forall>c\<in>set cs. \<exists>sub. applyFilter env out c = Inr (Some sub)"
  shows "\<exists>rs. apply_children env out cs = Inr rs
           \<and> set (flat rs)
               = (\<Union>c\<in>set cs. {x. \<exists>sub. applyFilter env out c = Inr (Some sub) \<and> x \<in> set sub})"
  using assms
proof (induction cs)
  case Nil
  then show ?case by simp
next
  case (Cons c cs)
  then obtain sub where sub: "applyFilter env out c = Inr (Some sub)"
    by auto
  from Cons obtain rs where rs: "apply_children env out cs = Inr rs"
    "set (flat rs) = (\<Union>c\<in>set cs. {x. \<exists>sub. applyFilter env out c = Inr (Some sub) \<and> x \<in> set sub})"
    by auto
  have "apply_children env out (c # cs) = Inr (Some sub # rs)"
    by (simp add: sub rs try_bind_def)
  moreover have "set (flat (Some sub # rs))
      = (\<Union>c\<in>set (c # cs). {x. \<exists>sub. applyFilter env out c = Inr (Some sub) \<and> x \<in> set sub})"
    using sub rs(2) by auto
  ultimately show ?case by blast
qed

lemma apply_children_raises:
  "c \<in> set cs \<Longrightarrow> applyFilter env outData c = Inl e \<Longrightarrow> \<exists>e'. apply_children env outData cs = Inl e'"
proof (induction cs)
  case Nil
  then show ?case by simp
next
  case (Cons d ds)
  show ?case
  proof (cases "applyFilter env outData d")
    case (Inl e1)
    then show ?thesis by (simp add: try_bind_def)
  next
    case (Inr r)
    with Cons obtain e' where "apply_children env outData ds = Inl e'"
      by auto
    with Inr show ?thesis by (simp add: try_bind_def)
  qed
qed

lemma applyFilter_plain:
  "operator c \<noteq> ''or'' \<Longrightarrow>
   (\<exists>e. applyFilter env (Some S) c = Inl e) \<or> (\<exists>sub. applyFilter env (Some S) c = Inr (Some sub))"
  by (cases c) (auto simp: try_bind_def split: sum.splits)

text \<open>
  C1. Let \<open>S\<close> be the candidate set the earlier top-level filters have narrowed the
  records to, its members objects, no two of them at one address. Applied to \<open>S\<close>, a
  child that is a plain comparison either raises or keeps a subset of \<open>S\<close>. When every
  child keeps a subset, the \<open>or\<close> filter yields the next candidate set \<open>U\<close>: its
  members are exactly the records some child keeps from \<open>S\<close>, and no two entries of \<open>U\<close>
  are the same object; so a record two children keep appears once, and two records
  with equal content at different addresses both stay. When a child raises, so does
  the \<open>or\<close> filter.
\<close>

theorem or_filter_is_union:
  assumes narrowed: "apply_filters env (Some S0) earlier = Inr (Some S)"
    and objects: "\<forall>r\<in>set S. is_object r"
    and heap: "\<forall>x\<in>set S. \<forall>y\<in>set S. ref_of x = ref_of y \<longrightarrow> x = y"
  shows "((\<forall>c\<in>set cs. \<exists>sub. applyFilter env (Some S) c = Inr (Some sub)) \<longrightarrow>
          (\<exists>U. apply_filters env (Some S0) (earlier @ [ConditionalFilter cs]) = Inr (Some U)
             \<and> filter_step env (Some S) (ConditionalFilter cs) = Inr (Some U)
             \<and> set U = (\<Union>c\<in>set cs. {x. \<exists>sub. applyFilter env (Some S) c = Inr (Some sub)
                                            \<and> x \<in> set sub})
             \<and> distinct (map ref_of U)))
       \<and> ((\<exists>c\<in>set cs. \<exists>e. applyFilter env (Some S) c = Inl e) \<longrightarrow>
          (\<exists>e. filter_step env (Some S) (ConditionalFilter cs) = Inl e
             \<and> apply_filters env (Some S0) (earlier @ [ConditionalFilter cs]) = Inl e))
       \<and> (\<forall>c\<in>set cs. operator c \<noteq> ''or'' \<longrightarrow>
            (\<exists>e. applyFilter env (Some S) c = Inl e)
            \<or> (\<exists>sub. applyFilter env (Some S) c = Inr (Some sub)))"
proof (intro conjI impI ballI)
  assume children: "\<forall>c\<in>set cs. \<exists>sub. applyFilter env (Some S) c = Inr (Some sub)"
  let ?union = "\<Union>c\<in>set cs. {x. \<exists>sub. applyFilter env (Some S) c = Inr (Some sub) \<and> x \<in> set sub}"
  obtain rs where rs: "apply_children env (Some S) cs = Inr rs" "set (flat rs) = ?union"
    using apply_children_flat [OF children] by blast
  have in_S: "set (flat rs) \<subseteq> set S"
    unfolding rs(2) using applyFilter_subset by blast
  then have all_truthy: "filter truthy (flat rs) = flat rs"
    using objects by (auto simp: filter_id_conv intro: is_object.elims(2) dest!: subsetD)
  have eqv: "\<forall>x\<in>set S. \<forall>y\<in>set S. same_value_zero x y = (x = y)"
    using objects heap by (auto simp: same_value_zero_objects)
  let ?U = "new_Set (flat rs)"
  have U: "set ?U = set (flat rs)" "distinct ?U"
    using foldl_set_add [OF eqv _ in_S, of "[]"] by (simp_all add: new_Set_def)
  have step: "filter_step env (Some S) (ConditionalFilter cs) = Inr (Some ?U)"
    by (simp add: rs(1) try_bind_def or_union_def all_truthy)
  have "inj_on ref_of (set ?U)"
    using heap in_S U(1) by (auto simp: inj_on_def)
  then have "distinct (map ref_of ?U)"
    using U(2) by (simp add: distinct_map)
  moreover have "apply_filters env (Some S0) (earlier @ [ConditionalFilter cs]) = Inr (Some ?U)"
    unfolding apply_filters_append narrowed using step by (simp add: try_bind_def)
  ultimately show "\<exists>U. apply_filters env (Some S0) (earlier @ [ConditionalFilter cs]) = Inr (Some U)
             \<and> filter_step env (Some S) (ConditionalFilter cs) = Inr (Some U)
             \<and> set U = ?union \<and> distinct (map ref_of U)"
    using step U(1) rs(2) by blast
next
  assume "\<exists>c\<in>set cs. \<exists>e. applyFilter env (Some S) c = Inl e"
  then obtain e where "apply_children env (Some S) cs = Inl e"
    using apply_children_raises by blast
  then have step: "filter_step env (Some S) (ConditionalFilter cs) = Inl e"
    by (simp add: try_bind_def)
  have "apply_filters env (Some S0) (earlier @ [ConditionalFilter cs]) = Inl e"
    unfolding apply_filters_append narrowed using step by (simp add: try_bind_def)
  with step show "\<exists>e. filter_step env (Some S) (ConditionalFilter cs) = Inl e
             \<and> apply_filters env (Some S0) (earlier @ [ConditionalFilter cs]) = Inl e"
    by blast
next
  fix c assume "operator c \<noteq> ''or''"
  then show "(\<exists>e. applyFilter env (Some S) c = Inl e)
            \<or> (\<exists>sub. applyFilter env (Some S) c = Inr (Some sub))"
    by (rule applyFilter_plain)
qed

lemmas run_filter =
  try_bind_def evaluate_def resolve_field_def filterFn_def js_lt_def js_gt_def js_le_def
  js_ge_def is_less_than_def to_primitive_def to_number_def loose_eq_def or_union_def
  new_Set_def set_add_def

theorem or_filter_is_union_witness:
  "(\<exists>U. apply_filters engine
          (Some [JObj 1 [(''age'', JNum (Fin 20))], JObj 2 [(''age'', JNum (Fin 20))],
                 JObj 3 [(''age'', JNum (Fin 30))], JObj 4 [(''age'', JNum (Fin 50))]])
          ([LogicalFilter ''age'' ''lt'' (JNum (Fin 40))]
           @ [ConditionalFilter [LogicalFilter ''age'' ''lt'' (JNum (Fin 25)),
                                 LogicalFilter ''age'' ''gte'' (JNum (Fin 20))]])
        = Inr (Some U)
      \<and> filter_step engine
          (Some [JObj 1 [(''age'', JNum (Fin 20))], JObj 2 [(''age'', JNum (Fin 20))],
                 JObj 3 [(''age'', JNum (Fin 30))]])
          (ConditionalFilter [LogicalFilter ''age'' ''lt'' (JNum (Fin 25)),
                              LogicalFilter ''age'' ''gte'' (JNum (Fin 20))])
        = Inr (Some U)
      \<and> set U = (\<Union>c\<in>set [LogicalFilter ''age'' ''lt'' (JNum (Fin 25)),
                            LogicalFilter ''age'' ''gte'' (JNum (Fin 20))].
                   {x. \<exists>sub. applyFilter engine
                          (Some [JObj 1 [(''age'', JNum (Fin 20))], JObj 2 [(''age'', JNum (Fin 20))],
                                 JObj 3 [(''age'', JNum (Fin 30))]]) c = Inr (Some sub)
                        \<and> x \<in> set sub})
      \<and> distinct (map ref_of U))
   \<and> (\<exists>e. filter_step engine
          (Some [JObj 1 [(''age'', JNum (Fin 20))], JObj 2 [(''age'', JNum (Fin 20))],
                 JObj 3 [(''age'', JNum (Fin 30))]])
          (ConditionalFilter [LogicalFilter ''age'' ''lt'' (JNum (Fin 25)),
                              LogicalFilter ''meta.flag'' ''nnull'' JUndefined])
        = Inl e
      \<and> apply_filters engine
          (Some [JObj 1 [(''age'', JNum (Fin 20))], JObj 2 [(''age'', JNum (Fin 20))],
                 JObj 3 [(''age'', JNum (Fin 30))], JObj 4 [(''age'', JNum (Fin 50))]])
          ([LogicalFilter ''age'' ''lt'' (JNum (Fin 40))]
           @ [ConditionalFilter [LogicalFilter ''age'' ''lt'' (JNum (Fin 25)),
                                 LogicalFilter ''meta.flag'' ''nnull'' JUndefined]])
        = Inl e)"
proof -
  let ?all = "[JObj 1 [(''age'', JNum (Fin 20))], JObj 2 [(''age'', JNum (Fin 20))],
              JObj 3 [(''age'', JNum (Fin 30))], JObj 4 [(''age'', JNum (Fin 50))]]"
  let ?S = "[JObj 1 [(''age'', JNum (Fin 20))], JObj 2 [(''age'', JNum (Fin 20))],
             JObj 3 [(''age'', JNum (Fin 30))]]"
  have narrowed: "apply_filters engine (Some ?all) [LogicalFilter ''age'' ''lt'' (JNum (Fin 40))]
        = Inr (Some ?S)"
    by (simp add: run_filter)
  have objects: "\<forall>r\<in>set ?S. is_object r"
    by simp
  have heap: "\<forall>x\<in>set ?S. \<forall>y\<in>set ?S. ref_of x = ref_of y \<longrightarrow> x = y"
    by simp
  have keep: "\<forall>c\<in>set [LogicalFilter ''age'' ''lt'' (JNum (Fin 25)),
                        LogicalFilter ''age'' ''gte'' (JNum (Fin 20))].
          \<exists>sub. applyFilter engine (Some ?S) c = Inr (Some sub)"
    by (simp add: run_filter)
  have raise: "\<exists>c\<in>set [LogicalFilter ''age'' ''lt'' (JNum (Fin 25)),
                        LogicalFilter ''meta.flag'' ''nnull'' JUndefined].
          \<exists>e. applyFilter engine (Some ?S) c = Inl e"
    by (simp add: run_filter)
  show ?thesis
    using or_filter_is_union [OF narrowed objects heap,
            of "[LogicalFilter ''age'' ''lt'' (JNum (Fin 25)),
                LogicalFilter ''age'' ''gte'' (JNum (Fin 20))]"]
          or_filter_is_union [OF narrowed objects heap,
            of "[LogicalFilter ''age'' ''lt'' (JNum (Fin 25)),
                LogicalFilter ''meta.flag'' ''nnull'' JUndefined]"]
          keep raise
    by blast
qed

text \<open>The first two records have the same content at different addresses and both
  children keep them: each appears once in the union.\<close>

lemma or_union_example:
  "filter_step engine
     (Some [JObj 1 [(''age'', JNum (Fin 20))], JObj 2 [(''age'', JNum (Fin 20))],
            JObj 3 [(''age'', JNum (Fin 30))]])
     (ConditionalFilter [LogicalFilter ''age'' ''lt'' (JNum (Fin 25)),
                         LogicalFilter ''age'' ''gte'' (JNum (Fin 20))])
   = Inr (Some [JObj 1 [(''age'', JNum (Fin 20))], JObj 2 [(''age'', JNum (Fin 20))],
            JObj 3 [(''age'', JNum (Fin 30))]])"
  by (simp add: run_filter)

subsection \<open>Sorting\<close>

text \<open>Less-than is asymmetric, on strings, on numbers and on any two values; so the
  comparator never answers that each of two records goes before the other.\<close>

lemma str_less_asym: "str_less s t \<Longrightarrow> \<not> str_less t s"
  by (induction s t rule: str_less.induct) (auto split: if_splits)

lemma num_less_asym: "num_less x y = Some True \<Longrightarrow> num_less y x \<noteq> Some True"
  by (cases x; cases y) auto

lemma js_lt_asym: "js_lt env x y \<Longrightarrow> \<not> js_lt env y x"
  unfolding js_lt_def is_less_than_def
  by (cases "to_primitive env x"; cases "to_primitive env y")
     (auto dest: str_less_asym num_less_asym)

text \<open>Reading a property of a value that is neither undefined nor null does not raise, and
  then the comparator answers \<open>-1\<close> or \<open>1\<close> by the less-than of the two properties.\<close>

lemma get_prop_defined:
  "r \<noteq> JUndefined \<Longrightarrow> r \<noteq> JNull \<Longrightarrow> \<exists>v. get_prop r f = Inr v"
  by (cases r) auto

lemma compare_by_defined:
  assumes "get_prop a f = Inr x" and "get_prop b f = Inr y"
  shows "compare_by env f a b = Inr (if js_lt env x y then - 1 else 1)"
    and "less_at env f a b = js_lt env x y"
  using assms by (simp_all add: compare_by_def less_at_def try_bind_def)

lemma compare_by_two_valued:
  "compare_by env f a b = Inr c \<Longrightarrow> c = (if less_at env f a b then - 1 else 1)"
  by (cases "get_prop a f"; cases "get_prop b f")
     (auto simp: compare_by_def less_at_def try_bind_def split: if_splits)

lemma less_at_asym: "less_at env f a b \<Longrightarrow> \<not> less_at env f b a"
  by (cases "get_prop a f"; cases "get_prop b f")
     (auto simp: compare_by_def less_at_def try_bind_def dest: js_lt_asym split: if_splits)

text \<open>The sort keeps every entry, as often as it came.\<close>

lemma insert_by_mset:
  "insert_by cmp x ys = Inr zs \<Longrightarrow> mset zs = add_mset x (mset ys)"
proof (induction ys arbitrary: zs)
  case Nil
  then show ?case by auto
next
  case (Cons y ys)
  show ?case
  proof (cases "cmp x y")
    case (Inl e)
    with Cons.prems show ?thesis by (simp add: try_bind_def)
  next
    case (Inr c)
    show ?thesis
    proof (cases "c < 0")
      case True
      with Inr Cons.prems show ?thesis by (auto simp: try_bind_def)
    next
      case False
      show ?thesis
      proof (cases "insert_by cmp x ys")
        case (Inl e)
        with Inr False Cons.prems show ?thesis by (simp add: try_bind_def)
      next
        case (Inr r)
        then have "mset r = add_mset x (mset ys)" by (rule Cons.IH)
        moreover have "zs = y # r"
          using \<open>cmp x y = Inr c\<close> False Inr Cons.prems by (simp add: try_bind_def)
        ultimately show ?thesis by simp
      qed
    qed
  qed
qed

lemma sort_from_mset:
  "sort_from cmp done xs = Inr ys \<Longrightarrow> mset ys = mset done + mset xs"
proof (induction xs arbitrary: "done")
  case Nil
  then show ?case by simp
next
  case (Cons x xs)
  then show ?case
    by (cases "insert_by cmp x done") (auto simp: try_bind_def dest: insert_by_mset)
qed

lemma js_sort_mset: "js_sort cmp xs = Inr ys \<Longrightarrow> mset ys = mset xs"
proof -
  assume a: "js_sort cmp xs = Inr ys"
  then obtain zs where zs: "array_sort cmp (filter (\<lambda>x. x \<noteq> JUndefined) xs) = Inr zs"
    and ys: "ys = zs @ filter (\<lambda>x. x = JUndefined) xs"
    by (cases "array_sort cmp (filter (\<lambda>x. x \<noteq> JUndefined) xs)")
       (auto simp: js_sort_def try_bind_def)
  have "mset zs = mset (filter (\<lambda>x. x \<noteq> JUndefined) xs)"
    using zs sort_from_mset [of cmp "[]"] by (simp add: array_sort_def)
  then have "mset ys = filter_mset (\<lambda>x. x \<noteq> JUndefined) (mset xs)
                     + filter_mset (\<lambda>x. \<not> x \<noteq> JUndefined) (mset xs)"
    by (simp add: ys)
  then show ?thesis
    by (simp only: multiset_partition [symmetric])
qed

text \<open>Where no record is undefined or null and less-than on the records' keys is a strict
  weak order (whenever \<open>a\<close> goes before \<open>c\<close>, any \<open>b\<close> goes after \<open>a\<close> or before \<open>c\<close>), the
  sort does not raise and its result is ascending: no entry goes before an earlier
  one.\<close>

lemma insert_by_sorted:
  assumes rec: "\<forall>r\<in>A. r \<noteq> JUndefined \<and> r \<noteq> JNull"
    and weak: "\<forall>a\<in>A. \<forall>b\<in>A. \<forall>c\<in>A. less_at env f a c \<longrightarrow> less_at env f a b \<or> less_at env f b c"
    and x: "x \<in> A"
  shows "set ys \<subseteq> A \<Longrightarrow> sorted_wrt (\<lambda>u v. \<not> less_at env f v u) ys \<Longrightarrow>
         \<exists>zs. insert_by (compare_by env f) x ys = Inr zs
               \<and> set zs = insert x (set ys)
               \<and> sorted_wrt (\<lambda>u v. \<not> less_at env f v u) zs"
proof (induction ys)
  case Nil
  then show ?case by simp
next
  case (Cons y ys)
  have y: "y \<in> A" and ys: "set ys \<subseteq> A" using Cons.prems(1) by simp_all
  have sorted_ys: "sorted_wrt (\<lambda>u v. \<not> less_at env f v u) ys"
    and above_y: "\<forall>v\<in>set ys. \<not> less_at env f v y"
    using Cons.prems(2) by simp_all
  obtain vx where vx: "get_prop x f = Inr vx"
    using rec x get_prop_defined [of x f] by auto
  obtain vy where vy: "get_prop y f = Inr vy"
    using rec y get_prop_defined [of y f] by auto
  have cmp: "compare_by env f x y = Inr (if less_at env f x y then - 1 else 1)"
    using compare_by_defined [OF vx vy, of env] by simp
  show ?case
  proof (cases "less_at env f x y")
    case True
    have yx: "\<not> less_at env f y x" using True by (rule less_at_asym)
    have "\<not> less_at env f v x" if v: "v \<in> set ys" for v
    proof
      assume vx: "less_at env f v x"
      have "v \<in> A" using v ys by (rule subsetD [rotated])
      then have "less_at env f v y \<or> less_at env f y x"
        using weak [rule_format, of v y x] x y vx by simp
      then show False using above_y v yx by simp
    qed
    then have "sorted_wrt (\<lambda>u v. \<not> less_at env f v u) (x # y # ys)"
      using yx above_y sorted_ys by simp
    moreover have "insert_by (compare_by env f) x (y # ys) = Inr (x # y # ys)"
      using True cmp by (simp add: try_bind_def)
    ultimately show ?thesis by simp
  next
    case False
    obtain zs where zs: "insert_by (compare_by env f) x ys = Inr zs"
      "set zs = insert x (set ys)" "sorted_wrt (\<lambda>u v. \<not> less_at env f v u) zs"
      using Cons.IH [OF ys sorted_ys] by (elim exE conjE)
    have "insert_by (compare_by env f) x (y # ys) = Inr (y # zs)"
      using False cmp zs(1) by (simp add: try_bind_def)
    moreover have "sorted_wrt (\<lambda>u v. \<not> less_at env f v u) (y # zs)"
      using False zs(2,3) above_y by simp
    moreover have "set (y # zs) = insert x (set (y # ys))"
      using zs(2) by auto
    ultimately show ?thesis by blast
  qed
qed

lemma sort_from_sorted:
  assumes rec: "\<forall>r\<in>A. r \<noteq> JUndefined \<and> r \<noteq> JNull"
    and weak: "\<forall>a\<in>A. \<forall>b\<in>A. \<forall>c\<in>A. less_at env f a c \<longrightarrow> less_at env f a b \<or> less_at env f b c"
  shows "set xs \<subseteq> A \<Longrightarrow> set done \<subseteq> A \<Longrightarrow> sorted_wrt (\<lambda>u v. \<not> less_at env f v u) done \<Longrightarrow>
         \<exists>ys. sort_from (compare_by env f) done xs = Inr ys
               \<and> sorted_wrt (\<lambda>u v. \<not> less_at env f v u) ys"
proof (induction xs arbitrary: "done")
  case Nil
  then show ?case by simp
next
  case (Cons x xs)
  have x: "x \<in> A" and xs: "set xs \<subseteq> A" using Cons.prems(1) by auto
  obtain d where d: "insert_by (compare_by env f) x done = Inr d"
    "set d = insert x (set done)" "sorted_wrt (\<lambda>u v. \<not> less_at env f v u) d"
    using insert_by_sorted [OF rec weak x Cons.prems(2,3)] by blast
  have "set d \<subseteq> A" using d(2) x Cons.prems(2) by auto
  from Cons.IH [OF xs this d(3)] show ?case
    by (simp add: d(1) try_bind_def)
qed

text \<open>A field name without a dot is a path of one segment: resolving it reads that one
  property.\<close>

lemma resolve_plain_field:
  assumes "CHR ''.'' \<notin> set f"
  shows "resolve_field r f = get_prop r f"
proof -
  have "split_on CHR ''.'' g = [g]" if "CHR ''.'' \<notin> set g" for g
    using that by (induction g) (auto simp: Let_def)
  then show ?thesis
    using assms by (cases "get_prop r f") (simp_all add: resolve_field_def)
qed

lemma sort_data_first_key:
  "sort_data env (Some (k # ks)) dat
   = (case js_sort (compare_by env (field k)) dat of
        Inl e \<Rightarrow> Inl e
      | Inr ordered \<Rightarrow> Inr (if order k = ''desc'' then rev ordered else ordered))"
  by (simp add: sort_data_def try_bind_def)

lemma js_sort_sorted:
  assumes rec: "\<forall>r\<in>set dat. r \<noteq> JUndefined \<and> r \<noteq> JNull"
    and weak: "\<forall>a\<in>set dat. \<forall>b\<in>set dat. \<forall>c\<in>set dat.
                 less_at env f a c \<longrightarrow> less_at env f a b \<or> less_at env f b c"
  shows "\<exists>asc. js_sort (compare_by env f) dat = Inr asc
               \<and> sorted_wrt (\<lambda>u v. \<not> less_at env f v u) asc"
proof -
  have keep: "filter (\<lambda>x. x \<noteq> JUndefined) dat = dat"
    using rec by (simp add: filter_id_conv)
  have none: "filter (\<lambda>x. x = JUndefined) dat = []"
    using rec by (simp add: filter_empty_conv)
  have "\<exists>ys. sort_from (compare_by env f) [] dat = Inr ys
               \<and> sorted_wrt (\<lambda>u v. \<not> less_at env f v u) ys"
    by (rule sort_from_sorted [OF rec weak]) simp_all
  then obtain asc where asc: "sort_from (compare_by env f) [] dat = Inr asc"
    "sorted_wrt (\<lambda>u v. \<not> less_at env f v u) asc"
    by (elim exE conjE)
  have "js_sort (compare_by env f) dat = Inr asc"
    unfolding js_sort_def array_sort_def keep none asc(1) by (simp add: try_bind_def)
  with asc(2) show ?thesis by (intro exI conjI)
qed

text \<open>Less-than is a strict weak order on numbers other than \<open>NaN\<close>, so on records whose
  keys are such numbers.\<close>

lemma num_less_weak:
  assumes "x \<noteq> NaN" and "y \<noteq> NaN" and "z \<noteq> NaN" and "num_less x z = Some True"
    and "num_less x y \<noteq> Some True"
  shows "num_less y z = Some True"
proof (cases x)
  case NaN with assms show ?thesis by simp
next
  case NegInf
  with assms show ?thesis by (cases y; cases z) simp_all
next
  case PosInf
  with assms show ?thesis by (cases z) simp_all
next
  case xa: (Fin a)
  show ?thesis
  proof (cases y)
    case NaN with assms show ?thesis by simp
  next
    case NegInf with assms xa show ?thesis by (cases z) simp_all
  next
    case PosInf with assms xa show ?thesis by simp
  next
    case yb: (Fin b)
    show ?thesis
    proof (cases z)
      case NaN with assms show ?thesis by simp
    next
      case NegInf with assms xa show ?thesis by (cases z) simp_all
    next
      case PosInf with assms yb show ?thesis by simp
    next
      case (Fin c)
      with assms xa yb show ?thesis by simp
    qed
  qed
qed

lemma numeric_keys_weak_order:
  assumes "\<forall>r\<in>A. \<exists>n. n \<noteq> NaN \<and> get_prop r f = Inr (JNum n)"
  shows "\<forall>a\<in>A. \<forall>b\<in>A. \<forall>c\<in>A. less_at env f a c \<longrightarrow> less_at env f a b \<or> less_at env f b c"
proof (intro ballI impI)
  fix a b c assume mem: "a \<in> A" "b \<in> A" "c \<in> A" and ac: "less_at env f a c"
  have num: "\<exists>n. n \<noteq> NaN \<and> get_prop r f = Inr (JNum n)" if "r \<in> A" for r
    using assms that by (rule bspec)
  obtain x where x: "x \<noteq> NaN" "get_prop a f = Inr (JNum x)"
    using num [OF mem(1)] by (elim exE conjE)
  obtain y where y: "y \<noteq> NaN" "get_prop b f = Inr (JNum y)"
    using num [OF mem(2)] by (elim exE conjE)
  obtain z where z: "z \<noteq> NaN" "get_prop c f = Inr (JNum z)"
    using num [OF mem(3)] by (elim exE conjE)
  note n = x(1) y(1) z(1) and p = x(2) y(2) z(2)
  have lt: "js_lt env (JNum u) (JNum v) = (num_less u v = Some True)" for u v
    by (simp add: js_lt_def is_less_than_def to_primitive_def to_number_def)
  have "num_less x z = Some True"
    using ac compare_by_defined(2) [OF p(1) p(3), of env] by (simp add: lt)
  then have "num_less x y = Some True \<or> num_less y z = Some True"
    using num_less_weak [OF n] by (cases "num_less x y = Some True") simp_all
  then show "less_at env f a b \<or> less_at env f b c"
    using compare_by_defined(2) [OF p(1) p(2), of env] compare_by_defined(2) [OF p(2) p(3), of env]
    by (simp add: lt)
qed

text \<open>
  C4, as the code has it. With a non-empty list of sort keys only the first is used: the
  result is the same whatever keys follow it, and it holds the records that came in,
  each as often. The order \<open>desc\<close> gives the result of the order \<open>asc\<close> reversed as a
  whole. The first key's field is read as one property name, not walked as a path:
  when it has no dot and no record is undefined or null, the comparator answers \<open>-1\<close>
  when the first record's resolved value at the field is less than the second's and
  \<open>1\<close> otherwise, ties included; and when moreover less-than is a strict weak order
  on those records, the result is an ascending sequence of them, reversed for \<open>desc\<close>.
\<close>

theorem sort_by_first_key:
  "sort_data env (Some (k # ks)) dat = sort_data env (Some [k]) dat
   \<and> (\<forall>out. sort_data env (Some (k # ks)) dat = Inr out \<longrightarrow> mset out = mset dat)
   \<and> sort_data env (Some (k\<lparr>order := ''desc''\<rparr> # ks)) dat
       = map_sum id rev (sort_data env (Some (k\<lparr>order := ''asc''\<rparr> # ks)) dat)
   \<and> (CHR ''.'' \<notin> set (field k) \<longrightarrow> (\<forall>r\<in>set dat. r \<noteq> JUndefined \<and> r \<noteq> JNull) \<longrightarrow>
        (\<forall>a\<in>set dat. \<forall>b\<in>set dat.
           \<exists>x y. resolve_field a (field k) = Inr x \<and> resolve_field b (field k) = Inr y
                \<and> less_at env (field k) a b = js_lt env x y
                \<and> compare_by env (field k) a b = Inr (if js_lt env x y then - 1 else 1))
        \<and> ((\<forall>a\<in>set dat. \<forall>b\<in>set dat. \<forall>c\<in>set dat.
               less_at env (field k) a c \<longrightarrow> less_at env (field k) a b \<or> less_at env (field k) b c) \<longrightarrow>
            (\<exists>asc. mset asc = mset dat
               \<and> sorted_wrt (\<lambda>u v. \<not> less_at env (field k) v u) asc
               \<and> sort_data env (Some (k # ks)) dat
                   = Inr (if order k = ''desc'' then rev asc else asc))))"
proof (intro conjI allI impI ballI)
  show "sort_data env (Some (k # ks)) dat = sort_data env (Some [k]) dat"
    by (simp add: sort_data_def)
next
  fix out assume "sort_data env (Some (k # ks)) dat = Inr out"
  then obtain ordered where o: "js_sort (compare_by env (field k)) dat = Inr ordered"
    and out: "out = (if order k = ''desc'' then rev ordered else ordered)"
    unfolding sort_data_first_key
    by (cases "js_sort (compare_by env (field k)) dat") auto
  show "mset out = mset dat"
    using js_sort_mset [OF o] by (simp add: out)
next
  show "sort_data env (Some (k\<lparr>order := ''desc''\<rparr> # ks)) dat
       = map_sum id rev (sort_data env (Some (k\<lparr>order := ''asc''\<rparr> # ks)) dat)"
    by (cases "js_sort (compare_by env (field k)) dat") (simp_all add: sort_data_first_key)
next
  fix a b
  assume plain: "CHR ''.'' \<notin> set (field k)"
    and rec: "\<forall>r\<in>set dat. r \<noteq> JUndefined \<and> r \<noteq> JNull"
    and mem: "a \<in> set dat" "b \<in> set dat"
  obtain x where x: "get_prop a (field k) = Inr x"
    using rec mem(1) get_prop_defined [of a "field k"] by auto
  obtain y where y: "get_prop b (field k) = Inr y"
    using rec mem(2) get_prop_defined [of b "field k"] by auto
  show "\<exists>x y. resolve_field a (field k) = Inr x \<and> resolve_field b (field k) = Inr y
                \<and> less_at env (field k) a b = js_lt env x y
                \<and> compare_by env (field k) a b = Inr (if js_lt env x y then - 1 else 1)"
    using compare_by_defined [OF x y, of env] x y
    by (simp add: resolve_plain_field [OF plain])
next
  assume rec: "\<forall>r\<in>set dat. r \<noteq> JUndefined \<and> r \<noteq> JNull"
    and weak: "\<forall>a\<in>set dat. \<forall>b\<in>set dat. \<forall>c\<in>set dat.
               less_at env (field k) a c \<longrightarrow> less_at env (field k) a b \<or> less_at env (field k) b c"
  obtain asc where asc: "js_sort (compare_by env (field k)) dat = Inr asc"
    "sorted_wrt (\<lambda>u v. \<not> less_at env (field k) v u) asc"
    using js_sort_sorted [OF rec weak] by blast
  have "mset asc = mset dat" using asc(1) by (rule js_sort_mset)
  show "\<exists>asc. mset asc = mset dat
               \<and> sorted_wrt (\<lambda>u v. \<not> less_at env (field k) v u) asc
               \<and> sort_data env (Some (k # ks)) dat
                   = Inr (if order k = ''desc'' then rev asc else asc)"
  proof (intro exI conjI)
    show "mset asc = mset dat" by fact
    show "sorted_wrt (\<lambda>u v. \<not> less_at env (field k) v u) asc" by (rule asc(2))
    show "sort_data env (Some (k # ks)) dat = Inr (if order k = ''desc'' then rev asc else asc)"
      unfolding sort_data_first_key asc(1) by simp
  qed
qed



text \<open>Three records sorted by \<open>age\<close> descending, with a second key that is ignored.\<close>

lemmas run_sort =
  sort_data_def js_sort_def array_sort_def compare_by_def less_at_def try_bind_def
  js_lt_def is_less_than_def to_primitive_def to_number_def resolve_field_def

theorem sort_by_first_key_witness:
  "sort_data engine
     (Some [\<lparr>field = ''age'', order = ''desc''\<rparr>, \<lparr>field = ''id'', order = ''asc''\<rparr>])
     [JObj 1 [(''id'', JNum (Fin 1)), (''age'', JNum (Fin 30))],
      JObj 2 [(''id'', JNum (Fin 2)), (''age'', JNum (Fin 20))],
      JObj 3 [(''id'', JNum (Fin 3)), (''age'', JNum (Fin 30))]]
   = Inr [JObj 3 [(''id'', JNum (Fin 3)), (''age'', JNum (Fin 30))],
          JObj 1 [(''id'', JNum (Fin 1)), (''age'', JNum (Fin 30))],
          JObj 2 [(''id'', JNum (Fin 2)), (''age'', JNum (Fin 20))]]
   \<and> (\<exists>asc. mset asc
            = mset [JObj 1 [(''id'', JNum (Fin 1)), (''age'', JNum (Fin 30))],
                    JObj 2 [(''id'', JNum (Fin 2)), (''age'', JNum (Fin 20))],
                    JObj 3 [(''id'', JNum (Fin 3)), (''age'', JNum (Fin 30))]]
          \<and> sorted_wrt (\<lambda>u v. \<not> less_at engine ''age'' v u) asc
          \<and> sort_data engine
               (Some [\<lparr>field = ''age'', order = ''desc''\<rparr>, \<lparr>field = ''id'', order = ''asc''\<rparr>])
               [JObj 1 [(''id'', JNum (Fin 1)), (''age'', JNum (Fin 30))],
                JObj 2 [(''id'', JNum (Fin 2)), (''age'', JNum (Fin 20))],
                JObj 3 [(''id'', JNum (Fin 3)), (''age'', JNum (Fin 30))]]
             = Inr (rev asc))"
proof -
  let ?k = "\<lparr>field = ''age'', order = ''desc''\<rparr>"
  let ?ks = "[\<lparr>field = ''id'', order = ''asc''\<rparr>]"
  let ?dat = "[JObj 1 [(''id'', JNum (Fin 1)), (''age'', JNum (Fin 30))],
               JObj 2 [(''id'', JNum (Fin 2)), (''age'', JNum (Fin 20))],
               JObj 3 [(''id'', JNum (Fin 3)), (''age'', JNum (Fin 30))]]"
  note all = sort_by_first_key [of engine ?k ?ks ?dat]
  have plain: "CHR ''.'' \<notin> set (field ?k)"
    by simp
  have records: "\<forall>r\<in>set ?dat. r \<noteq> JUndefined \<and> r \<noteq> JNull"
    by simp
  have weak: "\<forall>a\<in>set ?dat. \<forall>b\<in>set ?dat. \<forall>c\<in>set ?dat.
      less_at engine (field ?k) a c \<longrightarrow> less_at engine (field ?k) a b \<or> less_at engine (field ?k) b c"
    by (rule numeric_keys_weak_order) simp
  have first: "sort_data engine (Some (?k # ?ks)) ?dat = sort_data engine (Some [?k]) ?dat"
    using all by (rule conjunct1)
  have "\<exists>asc. mset asc = mset ?dat
          \<and> sorted_wrt (\<lambda>u v. \<not> less_at engine (field ?k) v u) asc
          \<and> sort_data engine (Some (?k # ?ks)) ?dat
               = Inr (if order ?k = ''desc'' then rev asc else asc)"
    by (rule all [THEN conjunct2, THEN conjunct2, THEN conjunct2, THEN mp, OF plain,
                  THEN mp, OF records, THEN conjunct2, THEN mp, OF weak])
  then have sorted_part: "\<exists>asc. mset asc = mset ?dat
          \<and> sorted_wrt (\<lambda>u v. \<not> less_at engine ''age'' v u) asc
          \<and> sort_data engine (Some (?k # ?ks)) ?dat = Inr (rev asc)"
    by simp
  have "sort_data engine (Some [?k]) ?dat
      = Inr [JObj 3 [(''id'', JNum (Fin 3)), (''age'', JNum (Fin 30))],
             JObj 1 [(''id'', JNum (Fin 1)), (''age'', JNum (Fin 30))],
             JObj 2 [(''id'', JNum (Fin 2)), (''age'', JNum (Fin 20))]]"
    by (simp add: run_sort)
  with first sorted_part show ?thesis
    by (simp only:)
qed

text \<open>Two records with a nested \<open>address.zip\<close>, 2 and 1. The path resolves in both, and 1
  is less than 2, but the comparator reads the single property named \<open>address.zip\<close>,
  finds it in neither record, and answers 1 both ways: the records stay as they
  came.\<close>

theorem sort_field_path_not_resolved:
  "resolve_field (JObj 1 [(''id'', JNum (Fin 1)), (''address'', JObj 3 [(''zip'', JNum (Fin 2))])])
       ''address.zip'' = Inr (JNum (Fin 2))
   \<and> resolve_field (JObj 2 [(''id'', JNum (Fin 2)), (''address'', JObj 4 [(''zip'', JNum (Fin 1))])])
       ''address.zip'' = Inr (JNum (Fin 1))
   \<and> js_lt engine (JNum (Fin 1)) (JNum (Fin 2))
   \<and> compare_by engine ''address.zip''
       (JObj 2 [(''id'', JNum (Fin 2)), (''address'', JObj 4 [(''zip'', JNum (Fin 1))])])
       (JObj 1 [(''id'', JNum (Fin 1)), (''address'', JObj 3 [(''zip'', JNum (Fin 2))])])
     = Inr 1
   \<and> sort_data engine (Some [\<lparr>field = ''address.zip'', order = ''asc''\<rparr>])
       [JObj 1 [(''id'', JNum (Fin 1)), (''address'', JObj 3 [(''zip'', JNum (Fin 2))])],
        JObj 2 [(''id'', JNum (Fin 2)), (''address'', JObj 4 [(''zip'', JNum (Fin 1))])]]
     = Inr [JObj 1 [(''id'', JNum (Fin 1)), (''address'', JObj 3 [(''zip'', JNum (Fin 2))])],
            JObj 2 [(''id'', JNum (Fin 2)), (''address'', JObj 4 [(''zip'', JNum (Fin 1))])]]"
  by (simp add: run_sort)

text \<open>Ties: records of ages 30, 20, 30. Ascending, the two of age 30 keep the order they
  came in; descending is that sequence reversed, so they come out in the opposite
  order.\<close>

lemma sort_ties_example:
  "sort_data engine (Some [\<lparr>field = ''age'', order = ''asc''\<rparr>])
     [JObj 1 [(''id'', JNum (Fin 1)), (''age'', JNum (Fin 30))],
      JObj 2 [(''id'', JNum (Fin 2)), (''age'', JNum (Fin 20))],
      JObj 3 [(''id'', JNum (Fin 3)), (''age'', JNum (Fin 30))]]
   = Inr [JObj 2 [(''id'', JNum (Fin 2)), (''age'', JNum (Fin 20))],
          JObj 1 [(''id'', JNum (Fin 1)), (''age'', JNum (Fin 30))],
          JObj 3 [(''id'', JNum (Fin 3)), (''age'', JNum (Fin 30))]]
   \<and> sort_data engine (Some [\<lparr>field = ''age'', order = ''desc''\<rparr>])
     [JObj 1 [(''id'', JNum (Fin 1)), (''age'', JNum (Fin 30))],
      JObj 2 [(''id'', JNum (Fin 2)), (''age'', JNum (Fin 20))],
      JObj 3 [(''id'', JNum (Fin 3)), (''age'', JNum (Fin 30))]]
   = Inr [JObj 3 [(''id'', JNum (Fin 3)), (''age'', JNum (Fin 30))],
          JObj 1 [(''id'', JNum (Fin 1)), (''age'', JNum (Fin 30))],
          JObj 2 [(''id'', JNum (Fin 2)), (''age'', JNum (Fin 20))]]"
  by (simp add: run_sort)

subsection \<open>Pagination\<close>

lemma js_trunc_of_nat: "js_trunc (of_nat n) = int n"
  by (simp add: js_trunc_def)

lemma slice_index_of_nat: "slice_index len (Fin (of_nat n)) = min n len"
  by (simp add: slice_index_def js_trunc_of_nat Let_def)

lemma slice_of_nat:
  "a \<le> b \<Longrightarrow> slice xs (Fin (of_nat a)) (Fin (of_nat b)) = take (b - a) (drop a xs)"
  by (cases "a < length xs") (simp_all add: slice_def slice_index_of_nat Let_def min_def)

lemma or_default_positive: "1 \<le> n \<Longrightarrow> or_default (Some (Fin (of_nat n))) d = Fin (of_nat n)"
  by (simp add: or_default_def)

lemma paginate_page:
  assumes "1 \<le> K" and "1 \<le> P"
  shows "paginate (Some \<lparr>current = Some (Fin (of_nat K)), pageSize = Some (Fin (of_nat P))\<rparr>) dat
         = \<lparr>data = take P (drop ((K - 1) * P) dat), total = length dat\<rparr>"
proof -
  have start: "num_mul (num_sub (Fin (of_nat K)) (Fin 1)) (Fin (of_nat P))
                 = Fin (of_nat ((K - 1) * P))"
    using assms(1) by (simp add: num_sub_def of_nat_diff)
  have stop: "num_mul (Fin (of_nat K)) (Fin (of_nat P)) = Fin (of_nat (K * P))"
    by simp
  have le: "(K - 1) * P \<le> K * P"
    by simp
  have width: "K * P - (K - 1) * P = P"
    using assms(1) by (simp add: diff_mult_distrib)
  have "paginate (Some \<lparr>current = Some (Fin (of_nat K)), pageSize = Some (Fin (of_nat P))\<rparr>) dat
      = \<lparr>data = slice dat (Fin (of_nat ((K - 1) * P))) (Fin (of_nat (K * P))),
         total = length dat\<rparr>"
    using assms by (simp add: paginate_def or_default_positive start stop Let_def)
  then show ?thesis
    by (simp only: slice_of_nat [OF le] width)
qed

lemma concat_pages:
  "concat (map (\<lambda>k. take P (drop ((k - 1) * P) xs)) [1..<Suc m]) = take (m * P) xs"
proof (induction m)
  case 0
  then show ?case by simp
next
  case (Suc m)
  have "take (m * P) xs @ take P (drop (m * P) xs) = take (m * P + P) xs"
    by (simp add: take_add)
  with Suc show ?case by (simp add: add.commute)
qed

lemma pages_cover: "1 \<le> P \<Longrightarrow> n \<le> ((n + P - 1) div P) * P" for n P :: nat
proof -
  assume "1 \<le> P"
  then have "n + P - 1 < ((n + P - 1) div P) * P + P"
    using div_mult_mod_eq [of "n + P - 1" P] mod_less_divisor [of P "n + P - 1"] by linarith
  then show ?thesis using \<open>1 \<le> P\<close> by linarith
qed

text \<open>
  C3. For a page number \<open>K \<ge> 1\<close> and a page size \<open>P \<ge> 1\<close>, the page of a filtered and
  sorted sequence of \<open>N\<close> records is its slice from \<open>(K - 1) * P\<close> up to \<open>K * P\<close>,
  clipped to the sequence, with \<open>max 0 (min P (N - (K - 1) * P))\<close> records; the total is
  \<open>N\<close>; the pages 1 to \<open>ceil (N / P)\<close> concatenated are the whole sequence; absent
  pagination means page 1 of size 10; and \<open>getList\<close> resolves with that page and total,
  full, partial or empty.
\<close>

theorem pagination_slice:
  assumes "1 \<le> K" and "1 \<le> P"
  shows "paginate (Some \<lparr>current = Some (Fin (of_nat K)), pageSize = Some (Fin (of_nat P))\<rparr>) dat
           = \<lparr>data = take P (drop ((K - 1) * P) dat), total = length dat\<rparr>
       \<and> int (length (data (paginate
             (Some \<lparr>current = Some (Fin (of_nat K)), pageSize = Some (Fin (of_nat P))\<rparr>) dat)))
           = max 0 (min (int P) (int (length dat) - (int K - 1) * int P))
       \<and> concat (map (\<lambda>k. data (paginate
             (Some \<lparr>current = Some (Fin (of_nat k)), pageSize = Some (Fin (of_nat P))\<rparr>) dat))
           [1..<Suc ((length dat + P - 1) div P)]) = dat
       \<and> paginate None dat
           = paginate (Some \<lparr>current = Some (Fin 1), pageSize = Some (Fin 10)\<rparr>) dat
       \<and> (store_get api db resource = Inr (Some v) \<longrightarrow> object_values v = Inr fetched \<longrightarrow>
          (case filters of None \<Rightarrow> Inr (Some fetched)
             | Some fs \<Rightarrow> apply_filters env (Some fetched) fs) = Inr (Some filtered) \<longrightarrow>
          sort_data env sorting filtered = Inr dat \<longrightarrow>
          getList env api db resource
            (Some \<lparr>current = Some (Fin (of_nat K)), pageSize = Some (Fin (of_nat P))\<rparr>)
            sorting filters
          = (Resolved (Some \<lparr>data = take P (drop ((K - 1) * P) dat), total = length dat\<rparr>), []))"
proof -
  let ?pg = "\<lambda>k. Some \<lparr>current = Some (Fin (of_nat k)), pageSize = Some (Fin (of_nat P))\<rparr>"
  have page: "paginate (?pg k) dat = \<lparr>data = take P (drop ((k - 1) * P) dat), total = length dat\<rparr>"
    if "1 \<le> k" for k
    using that assms(2) by (rule paginate_page)
  have size: "int (length (data (paginate (?pg K) dat)))
      = max 0 (min (int P) (int (length dat) - (int K - 1) * int P))"
  proof -
    have gen: "int (length (take P (drop s dat)))
        = max 0 (min (int P) (int (length dat) - int s))" for s
      by simp
    have s: "int ((K - 1) * P) = (int K - 1) * int P"
      using assms(1) by (simp add: of_nat_diff)
    have d: "data (paginate (?pg K) dat) = take P (drop ((K - 1) * P) dat)"
      by (simp add: page [OF assms(1)])
    show ?thesis
      unfolding d gen s by (rule refl)
  qed
  have "map (\<lambda>k. data (paginate (?pg k) dat)) [1..<Suc ((length dat + P - 1) div P)]
      = map (\<lambda>k. take P (drop ((k - 1) * P) dat)) [1..<Suc ((length dat + P - 1) div P)]"
  proof (rule map_cong)
    fix k assume "k \<in> set [1..<Suc ((length dat + P - 1) div P)]"
    then have "1 \<le> k" by (simp del: upt_Suc)
    then show "data (paginate (?pg k) dat) = take P (drop ((k - 1) * P) dat)"
      by (simp add: page)
  qed (rule refl)
  then have whole: "concat (map (\<lambda>k. data (paginate (?pg k) dat))
        [1..<Suc ((length dat + P - 1) div P)]) = dat"
    using pages_cover [OF assms(2), of "length dat"] by (simp only: concat_pages) simp
  have dflt: "paginate None dat = paginate (Some \<lparr>current = Some (Fin 1), pageSize = Some (Fin 10)\<rparr>) dat"
    by (simp add: paginate_def or_default_def)
  have run: "getList env api db resource (?pg K) sorting filters
      = (Resolved (Some \<lparr>data = take P (drop ((K - 1) * P) dat), total = length dat\<rparr>), [])"
    if "store_get api db resource = Inr (Some v)" "object_values v = Inr fetched"
       "(case filters of None \<Rightarrow> Inr (Some fetched)
          | Some fs \<Rightarrow> apply_filters env (Some fetched) fs) = Inr (Some filtered)"
       "sort_data env sorting filtered = Inr dat"
    using that by (simp add: getList_def getList_try_def caught_def try_bind_def page [OF assms(1)])
  show ?thesis
    using page [OF assms(1)] size whole dflt run by blast
qed


theorem pagination_slice_witness:
  "paginate (Some \<lparr>current = Some (Fin 3), pageSize = Some (Fin 2)\<rparr>)
     [JObj 1 [(''id'', JNum (Fin 1))], JObj 2 [(''id'', JNum (Fin 2))],
      JObj 3 [(''id'', JNum (Fin 3))], JObj 4 [(''id'', JNum (Fin 4))],
      JObj 5 [(''id'', JNum (Fin 5))]]
   = \<lparr>data = [JObj 5 [(''id'', JNum (Fin 5))]], total = 5\<rparr>
   \<and> getList engine memory_store
       [(''posts'', JArr 9 [Some (JObj 1 [(''id'', JNum (Fin 1))]), Some (JObj 2 [(''id'', JNum (Fin 2))]),
          Some (JObj 3 [(''id'', JNum (Fin 3))]), Some (JObj 4 [(''id'', JNum (Fin 4))]),
          Some (JObj 5 [(''id'', JNum (Fin 5))])])]
       ''posts'' (Some \<lparr>current = Some (Fin 3), pageSize = Some (Fin 2)\<rparr>) None None
     = (Resolved (Some \<lparr>data = [JObj 5 [(''id'', JNum (Fin 5))]], total = 5\<rparr>), [])"
  using pagination_slice
          [where K = 3 and P = 2 and env = engine and api = memory_store
             and resource = "''posts''" and filters = None and sorting = None
             and db = "[(''posts'', JArr 9 [Some (JObj 1 [(''id'', JNum (Fin 1))]), Some (JObj 2 [(''id'', JNum (Fin 2))]),
                 Some (JObj 3 [(''id'', JNum (Fin 3))]), Some (JObj 4 [(''id'', JNum (Fin 4))]),
                 Some (JObj 5 [(''id'', JNum (Fin 5))])])]"
             and v = "JArr 9 [Some (JObj 1 [(''id'', JNum (Fin 1))]), Some (JObj 2 [(''id'', JNum (Fin 2))]),
                 Some (JObj 3 [(''id'', JNum (Fin 3))]), Some (JObj 4 [(''id'', JNum (Fin 4))]),
                 Some (JObj 5 [(''id'', JNum (Fin 5))])]"
             and fetched = "[JObj 1 [(''id'', JNum (Fin 1))], JObj 2 [(''id'', JNum (Fin 2))],
                JObj 3 [(''id'', JNum (Fin 3))], JObj 4 [(''id'', JNum (Fin 4))],
                JObj 5 [(''id'', JNum (Fin 5))]]"
             and filtered = "[JObj 1 [(''id'', JNum (Fin 1))], JObj 2 [(''id'', JNum (Fin 2))],
                JObj 3 [(''id'', JNum (Fin 3))], JObj 4 [(''id'', JNum (Fin 4))],
                JObj 5 [(''id'', JNum (Fin 5))]]"
             and dat = "[JObj 1 [(''id'', JNum (Fin 1))], JObj 2 [(''id'', JNum (Fin 2))],
                JObj 3 [(''id'', JNum (Fin 3))], JObj 4 [(''id'', JNum (Fin 4))],
                JObj 5 [(''id'', JNum (Fin 5))]]"]
  by (simp add: memory_store_def sort_data_def)

subsection \<open>Rounded page bounds\<close>

text \<open>An index at or beyond \<open>2^53\<close> is clipped to the length of an array of at most
  \<open>2^53\<close> entries, and rounding a natural number cannot move an index within such an
  array.\<close>

lemma slice_index_beyond:
  assumes "v = PosInf \<or> (\<exists>r. v = Fin r \<and> 2 ^ 53 \<le> r)" and "len \<le> 2 ^ 53"
  shows "slice_index len v = len"
  using assms(1)
proof (elim disjE exE conjE)
  assume "v = PosInf"
  then show ?thesis by (simp add: slice_index_def)
next
  fix r :: rat assume v: "v = Fin r" and r: "2 ^ 53 \<le> r"
  have "of_int (2 ^ 53) \<le> r" using r by simp
  then have big: "(2::int) ^ 53 \<le> \<lfloor>r\<rfloor>" by (simp only: le_floor_iff)
  have "0 \<le> r" using r by (rule order_trans [rotated]) simp
  then have i: "js_trunc r = \<lfloor>r\<rfloor>" by (simp add: js_trunc_def)
  have "int len \<le> 2 ^ 53" using assms(2) by (simp add: of_nat_le_iff [symmetric] del: of_nat_le_iff)
  then have "int len \<le> \<lfloor>r\<rfloor>" using big by (rule order_trans)
  then have "len \<le> nat \<lfloor>r\<rfloor>" by simp
  moreover have "\<not> \<lfloor>r\<rfloor> < 0" using big by simp
  ultimately show ?thesis
    unfolding v by (simp add: slice_index_def i Let_def min_def)
qed

lemma slice_index_round_large:
  "2 ^ 53 \<le> x \<Longrightarrow> len \<le> 2 ^ 53 \<Longrightarrow> slice_index len (round_double x) = len"
  by (rule slice_index_beyond [OF round_double_large])

lemma slice_index_round_nat:
  assumes "len \<le> 2 ^ 53"
  shows "slice_index len (round_double (of_nat n)) = min n len"
proof (cases "n \<le> 2 ^ 53")
  case True
  then have "\<bar>int n\<bar> \<le> 2 ^ 53" by (simp add: of_nat_le_iff [symmetric] del: of_nat_le_iff)
  then have "round_double (of_int (int n)) = Fin (of_int (int n))" by (rule round_double_int)
  then have "round_double (of_nat n) = Fin (of_nat n)" by simp
  then show ?thesis by (simp only: slice_index_of_nat)
next
  case False
  then have "(2::nat) ^ 53 \<le> n" by simp
  then have "(of_nat ((2::nat) ^ 53) :: rat) \<le> of_nat n" by (simp only: of_nat_le_iff)
  then have "(2::rat) ^ 53 \<le> of_nat n" by simp
  then have "slice_index len (round_double (of_nat n)) = len"
    using assms by (rule slice_index_round_large)
  then show ?thesis using False assms by simp
qed

text \<open>The bounds of the page are products of doubles and are rounded. On an array of at
  most \<open>2^53\<close> entries the rounded bounds select the page that the exact ones do: a
  bound that rounding changes is beyond the end of the array before and after.\<close>

lemma paginate_rounding:
  assumes "1 \<le> K" and "1 \<le> P" and "length dat \<le> 2 ^ 53"
  shows "slice dat (js_mul (js_sub (Fin (of_nat K)) (Fin 1)) (Fin (of_nat P)))
                   (js_mul (Fin (of_nat K)) (Fin (of_nat P)))
         = data (paginate
             (Some \<lparr>current = Some (Fin (of_nat K)), pageSize = Some (Fin (of_nat P))\<rparr>) dat)"
proof -
  let ?n = "length dat"
  have stop: "slice_index ?n (js_mul (Fin (of_nat K)) (Fin (of_nat P))) = min (K * P) ?n"
  proof -
    have "js_mul (Fin (of_nat K)) (Fin (of_nat P)) = round_double (of_nat (K * P))"
      by (simp add: js_mul_def)
    then show ?thesis by (simp only: slice_index_round_nat [OF assms(3)])
  qed
  have sub: "js_sub (Fin (of_nat K)) (Fin 1) = round_double (of_nat (K - 1))"
    using assms(1) by (simp add: js_sub_def num_sub_def of_nat_diff)
  have start: "slice_index ?n (js_mul (js_sub (Fin (of_nat K)) (Fin 1)) (Fin (of_nat P)))
      = min ((K - 1) * P) ?n"
  proof (cases "K - 1 \<le> 2 ^ 53")
    case True
    then have "\<bar>int (K - 1)\<bar> \<le> 2 ^ 53" by (simp add: of_nat_le_iff [symmetric] del: of_nat_le_iff)
    then have "round_double (of_int (int (K - 1))) = Fin (of_int (int (K - 1)))"
      by (rule round_double_int)
    then have "js_sub (Fin (of_nat K)) (Fin 1) = Fin (of_nat (K - 1))"
      unfolding sub by simp
    then have "js_mul (js_sub (Fin (of_nat K)) (Fin 1)) (Fin (of_nat P))
        = round_double (of_nat ((K - 1) * P))"
      by (simp add: js_mul_def)
    then show ?thesis by (simp only: slice_index_round_nat [OF assms(3)])
  next
    case False
    then have "(2::nat) ^ 53 \<le> K - 1" by simp
    then have "(of_nat ((2::nat) ^ 53) :: rat) \<le> of_nat (K - 1)" by (simp only: of_nat_le_iff)
    then have big: "(2::rat) ^ 53 \<le> of_nat (K - 1)" by simp
    have far: "min ((K - 1) * P) ?n = ?n"
    proof -
      have "?n \<le> K - 1" using False assms(3) by simp
      also have "\<dots> \<le> (K - 1) * P" using assms(2) by simp
      finally show ?thesis by simp
    qed
    have p: "(1::rat) \<le> of_nat P" using assms(2) by simp
    from round_double_large [OF big]
    have "slice_index ?n (js_mul (js_sub (Fin (of_nat K)) (Fin 1)) (Fin (of_nat P))) = ?n"
    proof (elim disjE exE conjE)
      assume "round_double (of_nat (K - 1)) = PosInf"
      then have "js_mul (js_sub (Fin (of_nat K)) (Fin 1)) (Fin (of_nat P)) = PosInf"
        unfolding sub using assms(2) by (simp add: js_mul_def)
      then show ?thesis by (simp add: slice_index_def)
    next
      fix r :: rat assume r: "round_double (of_nat (K - 1)) = Fin r" "2 ^ 53 \<le> r"
      have "2 ^ 53 * 1 \<le> r * of_nat P"
        using r(2) p by (intro mult_mono) simp_all
      then have "2 ^ 53 \<le> r * of_nat P" by simp
      then have "slice_index ?n (round_double (r * of_nat P)) = ?n"
        using assms(3) by (rule slice_index_round_large)
      then show ?thesis
        unfolding sub r(1) by (simp add: js_mul_def)
    qed
    then show ?thesis by (simp only: far)
  qed
  have "slice dat (js_mul (js_sub (Fin (of_nat K)) (Fin 1)) (Fin (of_nat P)))
                  (js_mul (Fin (of_nat K)) (Fin (of_nat P)))
      = take (min (K * P) ?n - min ((K - 1) * P) ?n) (drop (min ((K - 1) * P) ?n) dat)"
    unfolding slice_def Let_def start stop by (rule refl)
  also have "\<dots> = slice dat (Fin (of_nat ((K - 1) * P))) (Fin (of_nat (K * P)))"
    unfolding slice_def Let_def slice_index_of_nat by (rule refl)
  also have "\<dots> = take P (drop ((K - 1) * P) dat)"
  proof -
    have le: "(K - 1) * P \<le> K * P" by simp
    have width: "K * P - (K - 1) * P = P"
      using assms(1) by (simp add: diff_mult_distrib)
    show ?thesis by (simp only: slice_of_nat [OF le] width)
  qed
  finally show ?thesis
    by (simp add: paginate_page [OF assms(1,2)])
qed

section \<open>Properties of the provider\<close>

text \<open>
  C5. On a resource whose path does not exist, and on a store whose call throws,
  \<open>getList\<close>, \<open>getOne\<close>, \<open>getMany\<close> and \<open>createData\<close> resolve with undefined: the
  rejected promise the method creates is dropped, not returned.
  \<open>biggestIdPlusOneStrategy\<close>, which returns the rejected promise, rejects.
\<close>

theorem missing_resource_resolves:
  "getList engine memory_store [] ''posts'' None None None = (Resolved None, [Reason JUndefined])
   \<and> getOne engine memory_store [] ''posts'' (JNum (Fin 1)) = (Resolved None, [Reason (JStr [])])
   \<and> getMany engine memory_store [] ''posts'' [JNum (Fin 1)] = (Resolved None, [Reason JUndefined])
   \<and> getList engine offline_store [] ''posts'' None None None
       = (Resolved None, [StoreError ''offline''])
   \<and> getOne engine offline_store [] ''posts'' (JNum (Fin 1))
       = (Resolved None, [StoreError ''offline''])
   \<and> getMany engine offline_store [] ''posts'' [JNum (Fin 1)]
       = (Resolved None, [StoreError ''offline''])
   \<and> createData engine readonly_store (default_getCreateId engine readonly_store) 7
        [(''posts'', JArr 9 [Some (JObj 1 [(''id'', JNum (Fin 1))])])] ''posts''
        (JObj 5 [(''title'', JStr ''a'')])
       = ((Resolved None, [StoreError ''permission denied'']),
          [(''posts'', JArr 9 [Some (JObj 1 [(''id'', JNum (Fin 1))])])])
   \<and> biggestIdPlusOneStrategy engine memory_store [] ''posts'' = Rejected (Reason (JStr []))"
  by (simp add: getList_def getList_try_def getOne_def getMany_def caught_def try_bind_def
        memory_store_def offline_store_def readonly_store_def biggestIdPlusOneStrategy_def
        createData_def default_getCreateId_def id_number_def to_number_def to_primitive_def
        bigger_def engine_def print_number_def Let_def js_add_def round_small)

text \<open>No input makes one of the four methods reject.\<close>

lemma caught_resolves: "\<exists>r. fst (caught x) = Resolved r"
  by (cases x) (auto simp: caught_def)

lemma provider_methods_never_reject:
  "(\<exists>r. fst (getList env api db resource pg sorting filters) = Resolved r)
   \<and> (\<exists>r. fst (getOne env api db resource ident) = Resolved r)
   \<and> (\<exists>r. fst (getMany env api db resource ids) = Resolved r)
   \<and> (\<exists>r. fst (fst (createData env api getCreateId a db resource variables)) = Resolved r)"
proof -
  have "\<exists>r. fst (fst (createData env api getCreateId a db resource variables)) = Resolved r"
    by (cases "getCreateId db resource")
       (auto simp: createData_def Let_def split: sum.splits)
  then show ?thesis
    by (simp add: getList_def getOne_def getMany_def caught_resolves)
qed

subsection \<open>Allocating an id\<close>

text \<open>The reduce from 0 gives the greatest of 0 and the finite ids, or infinity when an id
  is infinite; \<open>NaN\<close> and minus infinity never replace the running maximum.\<close>

lemma finite_finite_ids: "finite {r. Fin r \<in> set ids}"
proof -
  have "{r. Fin r \<in> set ids} = Fin -` set ids" by auto
  moreover have "finite (Fin -` set ids)"
    by (rule finite_vimageI) (simp_all add: inj_on_def)
  ultimately show ?thesis by simp
qed

lemma bigger_PosInf: "bigger PosInf x = PosInf"
  by (cases x) (simp_all add: bigger_def)

lemma bigger_Fin:
  "bigger (Fin m) NaN = Fin m"
  "bigger (Fin m) NegInf = Fin m"
  "bigger (Fin m) PosInf = PosInf"
  "bigger (Fin m) (Fin r) = Fin (max m r)"
  by (simp_all add: bigger_def max_def)

lemma foldl_bigger_PosInf: "foldl bigger PosInf ids = PosInf"
  by (induction ids) (simp_all add: bigger_PosInf)

lemma foldl_bigger:
  "foldl bigger (Fin m) ids
   = (if PosInf \<in> set ids then PosInf else Fin (Max (insert m {r. Fin r \<in> set ids})))"
proof (induction ids arbitrary: m)
  case Nil
  then show ?case by simp
next
  case (Cons i ids)
  note fin = finite_finite_ids [of ids]
  show ?case
  proof (cases i)
    case NaN
    then have "{r. Fin r \<in> set (i # ids)} = {r. Fin r \<in> set ids}" by auto
    with NaN Cons show ?thesis by (simp add: bigger_Fin)
  next
    case NegInf
    then have "{r. Fin r \<in> set (i # ids)} = {r. Fin r \<in> set ids}" by auto
    with NegInf Cons show ?thesis by (simp add: bigger_Fin)
  next
    case PosInf
    then show ?thesis by (simp add: bigger_Fin foldl_bigger_PosInf)
  next
    case (Fin r)
    then have set: "{q. Fin q \<in> set (i # ids)} = insert r {q. Fin q \<in> set ids}" by auto
    have pos: "(PosInf \<in> set (i # ids)) = (PosInf \<in> set ids)"
      using Fin by simp
    have mx: "Max (insert (max m r) {q. Fin q \<in> set ids})
        = Max (insert m (insert r {q. Fin q \<in> set ids}))"
      using fin by (cases "{q. Fin q \<in> set ids} = {}") (simp_all add: max.assoc)
    have "foldl bigger (Fin m) (i # ids) = foldl bigger (Fin (max m r)) ids"
      using Fin by (simp add: bigger_Fin)
    also have "\<dots> = (if PosInf \<in> set ids then PosInf
                      else Fin (Max (insert (max m r) {q. Fin q \<in> set ids})))"
      by (rule Cons)
    finally show ?thesis
      unfolding pos set mx .
  qed
qed

text \<open>
  C6, as the code has it. For a resource whose snapshot is an array of records, the
  default strategy resolves with the double nearest to one more than the greatest of
  0 and the records' ids coerced to numbers; an id that coerces to \<open>NaN\<close> is skipped,
  holes of the array are skipped, and an infinite id gives infinity. When that
  greatest value is an integer below \<open>2^53\<close>, the result is exactly one more.
\<close>

theorem biggest_id_plus_one:
  assumes "store_get api db resource = Inr (Some (JArr a xs))"
    and "map_array (id_number env) (present xs) = Inr ids"
  shows "biggestIdPlusOneStrategy env api db resource
           = Resolved (if PosInf \<in> set ids then PosInf
                       else round_double (Max (insert 0 {r. Fin r \<in> set ids}) + 1))
       \<and> (PosInf \<notin> set ids \<longrightarrow> Max (insert 0 {r. Fin r \<in> set ids}) = of_int m \<longrightarrow> m < 2 ^ 53 \<longrightarrow>
            biggestIdPlusOneStrategy env api db resource = Resolved (Fin (of_int m + 1)))"
proof -
  let ?mx = "Max (insert 0 {r. Fin r \<in> set ids})"
  have general: "biggestIdPlusOneStrategy env api db resource
           = Resolved (if PosInf \<in> set ids then PosInf else round_double (?mx + 1))"
    using assms by (simp add: biggestIdPlusOneStrategy_def foldl_bigger js_add_def)
  have exact: "round_double (?mx + 1) = Fin (of_int m + 1)"
    if mx: "?mx = of_int m" and small: "m < 2 ^ 53"
  proof -
    have "0 \<le> ?mx" using finite_finite_ids [of ids] by simp
    then have "0 \<le> m" unfolding mx by simp
    then have "\<bar>m + 1\<bar> \<le> 2 ^ 53" using small by simp
    then have "round_double (of_int (m + 1)) = Fin (of_int (m + 1))"
      by (rule round_double_int)
    then show ?thesis by (simp add: mx)
  qed
  show ?thesis
    using general exact by simp
qed

lemmas run_ids =
  biggestIdPlusOneStrategy_def memory_store_def id_number_def try_bind_def to_number_def
  to_primitive_def bigger_Fin js_add_def round_small

theorem biggest_id_plus_one_witness:
  "biggestIdPlusOneStrategy engine memory_store
     [(''posts'', JArr 9 [None, Some (JObj 1 [(''id'', JNum (Fin 1))]),
                          Some (JObj 2 [(''id'', JNum (Fin 7))]),
                          Some (JObj 3 [(''title'', JStr ''x'')])])]
     ''posts''
   = Resolved (Fin 8)"
proof -
  have "{r. r = 1 \<or> r = 7} = {1, 7 :: rat}" by auto
  then show ?thesis
    using biggest_id_plus_one
          [where api = memory_store and env = engine and resource = "''posts''" and a = 9
             and db = "[(''posts'', JArr 9 [None, Some (JObj 1 [(''id'', JNum (Fin 1))]),
                          Some (JObj 2 [(''id'', JNum (Fin 7))]),
                          Some (JObj 3 [(''title'', JStr ''x'')])])]"
             and xs = "[None, Some (JObj 1 [(''id'', JNum (Fin 1))]),
                          Some (JObj 2 [(''id'', JNum (Fin 7))]),
                          Some (JObj 3 [(''title'', JStr ''x'')])]"
             and ids = "[Fin 1, Fin 7, NaN]" and m = 7]
    by (simp add: memory_store_def id_number_def try_bind_def to_number_def to_primitive_def
          round_small)
qed

text \<open>Where doubles are two apart the sum is rounded: after the id \<open>2^53\<close> the strategy
  answers \<open>2^53\<close> again.\<close>

lemma biggest_id_rounds:
  "biggestIdPlusOneStrategy engine memory_store
     [(''posts'', JArr 9 [Some (JObj 1 [(''id'', JNum (Fin (2 ^ 53)))])])] ''posts''
   = Resolved (Fin (2 ^ 53))"
proof -
  have "foldl bigger (Fin 0) [Fin (2 ^ 53)] = Fin (2 ^ 53)"
    by (simp add: bigger_Fin)
  moreover have "js_add (Fin (2 ^ 53)) (Fin 1) = Fin (2 ^ 53)"
    unfolding js_add_def num_add.simps round_num.simps by (rule round_double_above_safe)
  ultimately show ?thesis
    by (simp add: biggestIdPlusOneStrategy_def memory_store_def id_number_def try_bind_def
          to_number_def to_primitive_def del: foldl.simps)
qed

text \<open>A snapshot that is an object, not an array, has no \<open>map\<close>: the strategy
  rejects.\<close>

lemma biggest_id_on_object_rejects:
  "store_get api db resource = Inr (Some (JObj a fs)) \<Longrightarrow>
   biggestIdPlusOneStrategy env api db resource = Rejected TypeError"
  by (simp add: biggestIdPlusOneStrategy_def)

text \<open>A collection whose only id is \<open>-5\<close>: the strategy answers 1, not \<open>-4\<close>.\<close>

theorem negative_ids_allocate_one:
  "biggestIdPlusOneStrategy engine memory_store
     [(''posts'', JArr 9 [Some (JObj 1 [(''id'', JNum (Fin (- 5)))])])] ''posts''
   = Resolved (Fin 1)
   \<and> js_add (Fin (- 5)) (Fin 1) = Fin (- 4)
   \<and> biggestIdPlusOneStrategy engine memory_store
     [(''posts'', JArr 9 [Some (JObj 1 [(''id'', JNum (Fin (- 5)))])])] ''posts''
   \<noteq> Resolved (js_add (Fin (- 5)) (Fin 1))"
  by (simp add: run_ids)

subsection \<open>Creating a record\<close>

lemma map_of_set_prop_same: "map_of (set_prop fs k v) k = Some v"
proof (cases "k \<in> fst ` set fs")
  case True
  have "k \<in> fst ` set gs \<Longrightarrow>
        map_of (map (\<lambda>(k', w). if k' = k then (k', v) else (k', w)) gs) k = Some v" for gs
    by (induction gs) auto
  with True show ?thesis by (simp add: set_prop_def)
next
  case False
  then have "map_of fs k = None"
    by (simp add: map_of_eq_None_iff)
  with False show ?thesis by (simp add: set_prop_def map_add_def)
qed

lemma map_of_set_prop_other: "k' \<noteq> k \<Longrightarrow> map_of (set_prop fs k v) k' = map_of fs k'"
proof -
  assume neq: "k' \<noteq> k"
  have "map_of (map (\<lambda>(j, w). if j = k then (j, v) else (j, w)) gs) k' = map_of gs k'" for gs
    using neq by (induction gs) auto
  then show ?thesis
    using neq by (simp add: set_prop_def map_add_def split: option.splits)
qed

text \<open>
  C10. When \<open>createData\<close> resolves with a response, the strategy allocated an id, the
  object in the response is the object written to the store under \<open>resource/id\<close>, it
  is the caller's variables with the property \<open>id\<close> set to the allocated id (an \<open>id\<close>
  among the variables is overridden, every other property is kept), and no rejected
  promise was dropped.
\<close>

theorem create_stores_returned_payload:
  assumes "createData env api getCreateId a db resource variables
           = ((Resolved (Some resp), dropped), db')"
  shows "\<exists>ident. getCreateId db resource = Resolved ident
           \<and> data resp = JObj a (set_prop (spread variables) ''id'' ident)
           \<and> store_set api db (resource @ ''/'' @ to_string env ident) (data resp) = Inr db'
           \<and> get_prop (data resp) ''id'' = Inr ident
           \<and> (\<forall>k. k \<noteq> ''id'' \<longrightarrow> get_prop (data resp) k = get_prop (JObj a (spread variables)) k)
           \<and> dropped = []"
proof (cases "getCreateId db resource")
  case (Rejected e)
  with assms show ?thesis by (simp add: createData_def)
next
  case (Resolved ident)
  let ?payload = "JObj a (set_prop (spread variables) ''id'' ident)"
  show ?thesis
  proof (cases "store_set api db (resource @ ''/'' @ to_string env ident) ?payload")
    case (Inl e)
    with assms Resolved show ?thesis by (simp add: createData_def Let_def)
  next
    case (Inr written)
    with assms Resolved have "resp = \<lparr>data = ?payload\<rparr>" "dropped = []" "db' = written"
      by (simp_all add: createData_def Let_def)
    with Resolved Inr show ?thesis
      by (simp add: map_of_set_prop_same map_of_set_prop_other)
  qed
qed

text \<open>Conversely, when the strategy allocates an id and the write goes through, the
  method resolves with the payload.\<close>

lemma createData_succeeds:
  assumes "getCreateId db resource = Resolved ident"
    and "store_set api db (resource @ ''/'' @ to_string env ident)
           (JObj a (set_prop (spread variables) ''id'' ident)) = Inr db'"
  shows "createData env api getCreateId a db resource variables
         = ((Resolved (Some \<lparr>data = JObj a (set_prop (spread variables) ''id'' ident)\<rparr>), []), db')"
  using assms by (simp add: createData_def Let_def)

theorem create_stores_returned_payload_witness:
  "\<exists>ident. default_getCreateId engine memory_store
              [(''posts'', JArr 9 [Some (JObj 1 [(''id'', JNum (Fin 3))])])] ''posts''
            = Resolved ident
      \<and> data \<lparr>data = JObj 7 [(''id'', JNum (Fin 4)), (''title'', JStr ''a'')]\<rparr>
          = JObj 7 (set_prop (spread (JObj 5 [(''id'', JNum (Fin 99)), (''title'', JStr ''a'')]))
                      ''id'' ident)
      \<and> store_set memory_store [(''posts'', JArr 9 [Some (JObj 1 [(''id'', JNum (Fin 3))])])]
            (''posts'' @ ''/'' @ to_string engine ident)
            (data \<lparr>data = JObj 7 [(''id'', JNum (Fin 4)), (''title'', JStr ''a'')]\<rparr>)
          = Inr [(''posts/4'', JObj 7 [(''id'', JNum (Fin 4)), (''title'', JStr ''a'')]),
                 (''posts'', JArr 9 [Some (JObj 1 [(''id'', JNum (Fin 3))])])]
      \<and> get_prop (data \<lparr>data = JObj 7 [(''id'', JNum (Fin 4)), (''title'', JStr ''a'')]\<rparr>) ''id''
          = Inr ident
      \<and> (\<forall>k. k \<noteq> ''id'' \<longrightarrow>
            get_prop (data \<lparr>data = JObj 7 [(''id'', JNum (Fin 4)), (''title'', JStr ''a'')]\<rparr>) k
            = get_prop (JObj 7 (spread (JObj 5 [(''id'', JNum (Fin 99)), (''title'', JStr ''a'')]))) k)
      \<and> [] = ([] :: exn list)"
  by (rule create_stores_returned_payload)
     (simp add: createData_def default_getCreateId_def biggestIdPlusOneStrategy_def
        memory_store_def id_number_def try_bind_def to_number_def to_primitive_def
        set_prop_def engine_def print_number_def bigger_def Let_def js_add_def round_small)

end
